theory Spec2Isabelle
  imports Main "HOL-Library.Word"
begin

unbundle bit_operations_syntax

section \<open>Bytes, strings and the library functions of the code generator\<close>

text \<open>
  Go strings are byte sequences; \<open>string\<close> (a list of 8-bit characters) is the same
  data. Byte slices are lists of 8-bit words.
\<close>

type_synonym byte = "8 word"
type_synonym u32 = "32 word"
type_synonym int64 = "64 word"

definition bytes_of :: "string \<Rightarrow> byte list" where
  \<comment> \<open>the conversion \<^verbatim>\<open>[]byte(s)\<close>\<close>
  "bytes_of s = map of_char s"

subsection \<open>\<^verbatim>\<open>fmt.Sprintf("%d", n)\<close>\<close>

definition digitChar :: "int \<Rightarrow> char" where
  "digitChar n = ''0123456789'' ! nat n"

function decimal :: "int \<Rightarrow> string" where
  "decimal n = (if n < 10 then [digitChar n] else decimal (n div 10) @ [digitChar (n mod 10)])"
  by pat_completeness auto
termination
  by (relation "measure nat") auto

declare decimal.simps [simp del]

definition Sprintf_d :: "int \<Rightarrow> string" where
  "Sprintf_d n = (if n < 0 then CHR ''-'' # decimal (- n) else decimal n)"

subsection \<open>\<^verbatim>\<open>crypto/md5\<close>: the MD5 digest (RFC 1321)\<close>

definition md5_shifts :: "nat list" where
  "md5_shifts =
    [7, 12, 17, 22, 7, 12, 17, 22, 7, 12, 17, 22, 7, 12, 17, 22,
     5, 9, 14, 20, 5, 9, 14, 20, 5, 9, 14, 20, 5, 9, 14, 20,
     4, 11, 16, 23, 4, 11, 16, 23, 4, 11, 16, 23, 4, 11, 16, 23,
     6, 10, 15, 21, 6, 10, 15, 21, 6, 10, 15, 21, 6, 10, 15, 21]"

definition md5_table :: "u32 list" where
  "md5_table =
    [0xd76aa478, 0xe8c7b756, 0x242070db, 0xc1bdceee, 0xf57c0faf, 0x4787c62a, 0xa8304613, 0xfd469501,
     0x698098d8, 0x8b44f7af, 0xffff5bb1, 0x895cd7be, 0x6b901122, 0xfd987193, 0xa679438e, 0x49b40821,
     0xf61e2562, 0xc040b340, 0x265e5a51, 0xe9b6c7aa, 0xd62f105d, 0x02441453, 0xd8a1e681, 0xe7d3fbc8,
     0x21e1cde6, 0xc33707d6, 0xf4d50d87, 0x455a14ed, 0xa9e3e905, 0xfcefa3f8, 0x676f02d9, 0x8d2a4c8a,
     0xfffa3942, 0x8771f681, 0x6d9d6122, 0xfde5380c, 0xa4beea44, 0x4bdecfa9, 0xf6bb4b60, 0xbebfbc70,
     0x289b7ec6, 0xeaa127fa, 0xd4ef3085, 0x04881d05, 0xd9d4d039, 0xe6db99e5, 0x1fa27cf8, 0xc4ac5665,
     0xf4292244, 0x432aff97, 0xab9423a7, 0xfc93a039, 0x655b59c3, 0x8f0ccc92, 0xffeff47d, 0x85845dd1,
     0x6fa87e4f, 0xfe2ce6e0, 0xa3014314, 0x4e0811a1, 0xf7537e82, 0xbd3af235, 0x2ad7d2bb, 0xeb86d391]"

fun le_word :: "byte list \<Rightarrow> u32" where
  \<comment> \<open>little-endian bytes to a 32-bit word\<close>
  "le_word [] = 0"
| "le_word (b # bs) = ucast b + push_bit 8 (le_word bs)"

fun word_bytes :: "nat \<Rightarrow> u32 \<Rightarrow> byte list" where
  \<comment> \<open>the low \<open>n\<close> bytes of a 32-bit word, little-endian\<close>
  "word_bytes 0 w = []"
| "word_bytes (Suc n) w = ucast w # word_bytes n (drop_bit 8 w)"

fun word64_bytes :: "nat \<Rightarrow> int64 \<Rightarrow> byte list" where
  "word64_bytes 0 w = []"
| "word64_bytes (Suc n) w = ucast w # word64_bytes n (drop_bit 8 w)"

fun chunk_words :: "nat \<Rightarrow> byte list \<Rightarrow> u32 list" where
  "chunk_words 0 bs = []"
| "chunk_words (Suc n) bs = le_word (take 4 bs) # chunk_words n (drop 4 bs)"

definition md5_mix :: "nat \<Rightarrow> u32 \<Rightarrow> u32 \<Rightarrow> u32 \<Rightarrow> u32" where
  "md5_mix i b c d =
     (if i < 16 then (b AND c) OR (NOT b AND d)
      else if i < 32 then (d AND b) OR (NOT d AND c)
      else if i < 48 then b XOR c XOR d
      else c XOR (b OR NOT d))"

definition md5_index :: "nat \<Rightarrow> nat" where
  "md5_index i =
     (if i < 16 then i
      else if i < 32 then (5 * i + 1) mod 16
      else if i < 48 then (3 * i + 5) mod 16
      else (7 * i) mod 16)"

type_synonym md5_state = "u32 \<times> u32 \<times> u32 \<times> u32"

fun md5_step :: "u32 list \<Rightarrow> md5_state \<Rightarrow> nat \<Rightarrow> md5_state" where
  "md5_step m (a, b, c, d) i =
     (d, b + word_rotl (md5_shifts ! i) (a + md5_mix i b c d + md5_table ! i + m ! md5_index i),
      b, c)"

fun md5_block :: "md5_state \<Rightarrow> byte list \<Rightarrow> md5_state" where
  "md5_block (a, b, c, d) blk =
     (case foldl (md5_step (chunk_words 16 blk)) (a, b, c, d) [0..<64] of
        (a', b', c', d') \<Rightarrow> (a + a', b + b', c + c', d + d'))"

fun md5_blocks :: "nat \<Rightarrow> md5_state \<Rightarrow> byte list \<Rightarrow> md5_state" where
  "md5_blocks 0 st bs = st"
| "md5_blocks (Suc n) st bs = md5_blocks n (md5_block st (take 64 bs)) (drop 64 bs)"

definition md5_pad :: "byte list \<Rightarrow> byte list" where
  \<comment> \<open>a 1 bit, zeros up to 56 mod 64, then the length in bits as 64 bits little-endian\<close>
  "md5_pad msg =
     msg @ [0x80] @ replicate ((119 - length msg mod 64) mod 64) 0
       @ word64_bytes 8 (push_bit 3 (word_of_nat (length msg)))"

definition md5_Sum :: "byte list \<Rightarrow> byte list" where
  \<comment> \<open>\<^verbatim>\<open>hasher := md5.New(); hasher.Write(msg); hasher.Sum(nil)\<close>\<close>
  "md5_Sum msg =
     (case md5_blocks (length (md5_pad msg) div 64)
             (0x67452301, 0xefcdab89, 0x98badcfe, 0x10325476) (md5_pad msg) of
        (a, b, c, d) \<Rightarrow> word_bytes 4 a @ word_bytes 4 b @ word_bytes 4 c @ word_bytes 4 d)"

subsection \<open>\<^verbatim>\<open>encoding/hex\<close>\<close>

definition hextable :: string where
  "hextable = ''0123456789abcdef''"

fun EncodeToString :: "byte list \<Rightarrow> string" where
  "EncodeToString [] = []"
| "EncodeToString (b # bs) =
     hextable ! unat (drop_bit 4 b) # hextable ! unat (b AND 0x0f) # EncodeToString bs"

section \<open>The persistent store (bbolt) as the handlers use it\<close>

text \<open>
  The record type \<^verbatim>\<open>URL\<close> of \<^verbatim>\<open>main.go\<close>. Go's \<^verbatim>\<open>int\<close> is a 64-bit
  machine integer on the platforms the service is built for; \<^verbatim>\<open>time.Time\<close> is kept as
  its wall-clock reading in nanoseconds.
\<close>

record URL =
  ID :: int64
  OriginalURL :: string
  ShortCode :: string
  CreatedAt :: int64
  ClickCount :: int64

text \<open>
  The values of the \<^verbatim>\<open>urls\<close> bucket are JSON documents. \<^verbatim>\<open>json.Marshal\<close> and
  \<^verbatim>\<open>json.Unmarshal\<close> are library functions; a stored value is modelled by what it decodes
  to: \<open>Marshalled r\<close> is the document \<^verbatim>\<open>json.Marshal(r)\<close>, which
  \<^verbatim>\<open>json.Unmarshal\<close> turns back into \<open>r\<close>, and \<open>Malformed\<close> stands for bytes that do
  not decode to a \<^verbatim>\<open>URL\<close>.
\<close>

datatype blob = Marshalled URL | Malformed

datatype err =
    ErrDatabaseNotOpen
  | ErrCreateBucket
  | ErrMarshal
  | ErrUnmarshal
  | ErrPut
  | ErrCommit
  | ErrParse

fun Unmarshal :: "blob \<Rightarrow> err + URL" where
  "Unmarshal (Marshalled r) = Inr r"
| "Unmarshal Malformed = Inl ErrUnmarshal"

text \<open>
  A transaction sees the two buckets; a bucket that has not been created is \<open>None\<close>
  (\<^verbatim>\<open>tx.Bucket\<close> returns \<^verbatim>\<open>nil\<close>).
\<close>

record Tx =
  urls :: "(string \<rightharpoonup> blob) option"
  reverse :: "(string \<rightharpoonup> string) option"

record DB =
  opened :: bool
  buckets :: Tx

text \<open>
  Failures of the store that do not depend on the data (a bucket that cannot be created, a
  \<^verbatim>\<open>Put\<close> or a commit that hits an I/O error, a record that cannot be marshalled) are
  inputs of the model: the list of steps that fail in the current write transaction.
\<close>

datatype fault =
    FailCreateUrls
  | FailMarshal
  | FailPutRecord
  | FailCreateReverse
  | FailPutReverse
  | FailCommit

definition View :: "DB \<Rightarrow> (Tx \<Rightarrow> 'a) \<Rightarrow> err + 'a" where
  \<comment> \<open>\<^verbatim>\<open>db.View(fn)\<close> for a closure that always returns \<^verbatim>\<open>nil\<close> (all three in
      \<^verbatim>\<open>main.go\<close> do): a read transaction has nothing to commit, so the call fails only
      when no transaction can begin, which is what \<open>opened\<close> records. The result of the
      closure is the value it leaves in the captured variable.\<close>
  "View d fn = (if opened d then Inr (fn (buckets d)) else Inl ErrDatabaseNotOpen)"

definition Update :: "fault list \<Rightarrow> DB \<Rightarrow> (Tx \<Rightarrow> err + Tx) \<Rightarrow> DB \<times> err option" where
  \<comment> \<open>\<^verbatim>\<open>db.Update(fn)\<close>: the closure works on the transaction's view; an error of the
      closure rolls everything back, and so does a failed commit.\<close>
  "Update fs d fn =
     (if \<not> opened d then (d, Some ErrDatabaseNotOpen)
      else case fn (buckets d) of
             Inl e \<Rightarrow> (d, Some e)
           | Inr tx \<Rightarrow>
               if FailCommit \<in> set fs then (d, Some ErrCommit)
               else (d\<lparr>buckets := tx\<rparr>, None))"

definition urlsGet :: "DB \<Rightarrow> string \<Rightarrow> blob option" where
  "urlsGet d k = (case urls (buckets d) of None \<Rightarrow> None | Some b \<Rightarrow> b k)"

definition reverseGet :: "DB \<Rightarrow> string \<Rightarrow> string option" where
  "reverseGet d k = (case reverse (buckets d) of None \<Rightarrow> None | Some b \<Rightarrow> b k)"

section \<open>The code generator\<close>

definition base62Chars :: string where
  "base62Chars = ''abcdefghijklmnopqrstuvwxyzABCDEFGHIJKLMNOPQRSTUVWXYZ0123456789''"

function encodeLoop :: "nat \<Rightarrow> string \<Rightarrow> string \<Rightarrow> string" where
  \<comment> \<open>the loop of \<^verbatim>\<open>generateShortCode\<close>, lines 58-64\<close>
  "encodeLoop i hash shortCode =
     (if i < 8 then
        (if i < length hash
         then encodeLoop (i + 1) hash (shortCode @ [base62Chars ! (of_char (hash ! i) mod 62)])
         else encodeLoop (i + 1) hash shortCode)
      else shortCode)"
  by pat_completeness auto
termination
  by (relation "measure (\<lambda>(i, hash, shortCode). 8 - i)") auto

declare encodeLoop.simps [simp del]

definition codeExists :: "string \<Rightarrow> Tx \<Rightarrow> bool" where
  \<comment> \<open>the closure of lines 68-77; the result is the captured \<^verbatim>\<open>exists\<close>\<close>
  "codeExists shortCode tx =
     (case urls tx of
        None \<Rightarrow> False
      | Some bucket \<Rightarrow> (case bucket shortCode of None \<Rightarrow> False | Some v \<Rightarrow> True))"

text \<open>
  \<^verbatim>\<open>time.Now().UnixNano()\<close> is an input: the list of the readings that successive
  attempts get. The source retries without a bound; the model returns \<open>None\<close> when
  every reading it was given led to a code that exists already, that is, when the call has
  not returned yet.
\<close>

fun generateShortCode :: "DB \<Rightarrow> string \<Rightarrow> int64 list \<Rightarrow> (err + string) option" where
  "generateShortCode d originalURL [] = None"
| "generateShortCode d originalURL (now # later) =
     (let hash = EncodeToString (md5_Sum (bytes_of (originalURL @ Sprintf_d (sint now))));
          shortCode = encodeLoop 0 hash []
      in case View d (codeExists shortCode) of
           Inl e \<Rightarrow> Some (Inl e)
         | Inr exists \<Rightarrow>
             if exists then generateShortCode d originalURL later
             else Some (Inr shortCode))"

declare generateShortCode.simps(2) [simp del]

text \<open>The two readings of the encoding step that the development compares.\<close>

definition digestCode :: "byte list \<Rightarrow> string" where
  \<comment> \<open>each of the first 8 bytes of the digest, modulo 62, as an alphabet symbol\<close>
  "digestCode digest = map (\<lambda>b. base62Chars ! (unat b mod 62)) (take 8 digest)"

definition hexCode :: "byte list \<Rightarrow> string" where
  \<comment> \<open>each of the first 8 characters of the hexadecimal text of the digest, its character
      code modulo 62, as an alphabet symbol\<close>
  "hexCode digest =
     map (\<lambda>ch. base62Chars ! (of_char ch mod 62)) (take 8 (EncodeToString digest))"

definition codeAt :: "string \<Rightarrow> int64 \<Rightarrow> string" where
  "codeAt originalURL now = hexCode (md5_Sum (bytes_of (originalURL @ Sprintf_d (sint now))))"

section \<open>The handlers\<close>

text \<open>
  \<^verbatim>\<open>url.Parse\<close> is a library function and a parameter of the model; of its result only
  the two fields that \<^verbatim>\<open>isValidURL\<close> reads are kept.
\<close>

record ParsedURL =
  Scheme :: string
  Host :: string

type_synonym parser = "string \<Rightarrow> err + ParsedURL"

definition isValidURL :: "parser \<Rightarrow> string \<Rightarrow> bool" where
  "isValidURL Parse str =
     (case Parse str of Inl e \<Rightarrow> False | Inr u \<Rightarrow> Scheme u \<noteq> [] \<and> Host u \<noteq> [])"

definition HasPrefix :: "string \<Rightarrow> string \<Rightarrow> bool" where
  "HasPrefix s pre = (take (length pre) s = pre)"

definition normalizeURL :: "string \<Rightarrow> string" where
  \<comment> \<open>lines 117-119 of \<^verbatim>\<open>shortenHandler\<close>\<close>
  "normalizeURL url =
     (if \<not> HasPrefix url ''http://'' \<and> \<not> HasPrefix url ''https://''
      then ''https://'' @ url else url)"

text \<open>
  The fields of \<^verbatim>\<open>ShortenResponse\<close> carry their JSON names: the Go names of two of them
  are those of the fields of \<^verbatim>\<open>URL\<close>.
\<close>

record ShortenResponse =
  short_url :: string
  original_url :: string
  short_code :: string

datatype response =
    PlainError nat string
  | JsonError nat string
  | JsonOK ShortenResponse
  | Redirect nat string
  | NotFound

datatype log_line = LogGenerateError err | LogInsertError err

text \<open>
  The state the handlers work on: the \<^verbatim>\<open>App\<close> (store handle and cache), the lines
  written with \<^verbatim>\<open>log.Printf\<close>, and the goroutines that have been started and have not
  run yet, each one the short code whose click count it will increment.
\<close>

record World =
  db :: DB
  cache :: "string \<rightharpoonup> string"
  logged :: "log_line list"
  goroutines :: "string list"

text \<open>
  What a call of \<^verbatim>\<open>shortenHandler\<close> takes from its environment: the clock readings of the
  code generator, the reading of \<^verbatim>\<open>time.Now()\<close> for \<^verbatim>\<open>CreatedAt\<close>, and the faults of
  its write transaction.
\<close>

record ShortenEnv =
  clock :: "int64 list"
  createdAt :: int64
  faults :: "fault list"

definition bucketOrNew :: "('k \<rightharpoonup> 'v) option \<Rightarrow> ('k \<rightharpoonup> 'v)" where
  \<comment> \<open>the bucket that \<^verbatim>\<open>tx.CreateBucketIfNotExists\<close> returns\<close>
  "bucketOrNew b = (case b of None \<Rightarrow> Map.empty | Some m \<Rightarrow> m)"

definition findExisting :: "string \<Rightarrow> Tx \<Rightarrow> string" where
  \<comment> \<open>the closure of lines 131-140; the result is the captured \<^verbatim>\<open>existingCode\<close>\<close>
  "findExisting url tx =
     (case reverse tx of
        None \<Rightarrow> []
      | Some bucket \<Rightarrow> (case bucket url of None \<Rightarrow> [] | Some v \<Rightarrow> v))"

definition saveURL :: "fault list \<Rightarrow> string \<Rightarrow> string \<Rightarrow> int64 \<Rightarrow> Tx \<Rightarrow> err + Tx" where
  \<comment> \<open>the closure of lines 164-196\<close>
  "saveURL fs url shortCode now tx =
     (if FailCreateUrls \<in> set fs then Inl ErrCreateBucket
      else
        let bucket = bucketOrNew (urls tx);
            urlData = \<lparr>ID = 0, OriginalURL = url, ShortCode = shortCode,
                       CreatedAt = now, ClickCount = 0\<rparr>
        in if FailMarshal \<in> set fs then Inl ErrMarshal
           else if FailPutRecord \<in> set fs then Inl ErrPut
           else
             let tx1 = tx\<lparr>urls := Some (bucket(shortCode \<mapsto> Marshalled urlData))\<rparr>
             in if FailCreateReverse \<in> set fs then Inl ErrCreateBucket
                else
                  let reverseBucket = bucketOrNew (reverse tx1)
                  in if FailPutReverse \<in> set fs then Inl ErrPut
                     else Inr (tx1\<lparr>reverse := Some (reverseBucket(url \<mapsto> shortCode))\<rparr>))"

definition shortenHandler ::
  "parser \<Rightarrow> ShortenEnv \<Rightarrow> World \<Rightarrow> string \<Rightarrow> string option \<Rightarrow> (World \<times> response) option" where
  \<comment> \<open>\<open>body\<close> is the \<^verbatim>\<open>url\<close> field of the decoded request, \<open>None\<close> when decoding
      fails; the result is \<open>None\<close> when the code generator has not returned\<close>
  "shortenHandler Parse env w verb body =
     (if verb \<noteq> ''POST'' then Some (w, PlainError 405 ''method not allowed'')
      else case body of
        None \<Rightarrow> Some (w, JsonError 400 ''invalid json'')
      | Some reqURL \<Rightarrow>
          let url = normalizeURL reqURL
          in if \<not> isValidURL Parse url then Some (w, JsonError 400 ''invalid url format'')
             else
               let (existingCode, err) =
                     (case View (db w) (findExisting url) of
                        Inl e \<Rightarrow> ([], Some e)
                      | Inr c \<Rightarrow> (c, None))
               in if err = None \<and> existingCode \<noteq> []
                  then Some (w, JsonOK \<lparr>short_url = ''http://localhost:8080/'' @ existingCode,
                                        original_url = url, short_code = existingCode\<rparr>)
                  else
                      (case generateShortCode (db w) url (clock env) of
                         None \<Rightarrow> None
                       | Some (Inl e) \<Rightarrow>
                           Some (w\<lparr>logged := logged w @ [LogGenerateError e]\<rparr>,
                                 JsonError 500 ''server error'')
                       | Some (Inr shortCode) \<Rightarrow>
                           (case Update (faults env) (db w)
                                   (saveURL (faults env) url shortCode (createdAt env)) of
                              (d, Some e) \<Rightarrow>
                                Some (w\<lparr>logged := logged w @ [LogInsertError e]\<rparr>,
                                      JsonError 500 ''failed to save url'')
                            | (d, None) \<Rightarrow>
                                Some (w\<lparr>db := d, cache := (cache w)(shortCode \<mapsto> url)\<rparr>,
                                      JsonOK \<lparr>short_url = ''http://localhost:8080/'' @ shortCode,
                                              original_url = url, short_code = shortCode\<rparr>))))"

definition lookupOriginal :: "string \<Rightarrow> Tx \<Rightarrow> string" where
  \<comment> \<open>the closure of lines 257-269; the result is the captured \<^verbatim>\<open>originalURL\<close>\<close>
  "lookupOriginal shortCode tx =
     (case urls tx of
        None \<Rightarrow> []
      | Some bucket \<Rightarrow>
          (case bucket shortCode of
             None \<Rightarrow> []
           | Some v \<Rightarrow> (case Unmarshal v of Inl e \<Rightarrow> [] | Inr urlData \<Rightarrow> OriginalURL urlData)))"

definition bumpClicks :: "fault list \<Rightarrow> string \<Rightarrow> Tx \<Rightarrow> err + Tx" where
  \<comment> \<open>the closure of lines 233-248, repeated at lines 281-296: it returns \<^verbatim>\<open>nil\<close> on every
      path and drops the error of \<^verbatim>\<open>bucket.Put\<close>\<close>
  "bumpClicks fs shortCode tx =
     (case urls tx of
        None \<Rightarrow> Inr tx
      | Some bucket \<Rightarrow>
          (case bucket shortCode of
             None \<Rightarrow> Inr tx
           | Some v \<Rightarrow>
               (case Unmarshal v of
                  Inl e \<Rightarrow> Inr tx
                | Inr urlData \<Rightarrow>
                    let urlData' = urlData\<lparr>ClickCount := ClickCount urlData + 1\<rparr>
                    in if FailMarshal \<in> set fs then Inr tx
                       else if FailPutRecord \<in> set fs then Inr tx
                       else Inr (tx\<lparr>urls := Some (bucket(shortCode \<mapsto> Marshalled urlData'))\<rparr>))))"

definition incrementClicks :: "fault list \<Rightarrow> DB \<Rightarrow> string \<Rightarrow> DB \<times> err option" where
  \<comment> \<open>the body of the goroutine\<close>
  "incrementClicks fs d shortCode = Update fs d (bumpClicks fs shortCode)"

definition redirectHandler :: "World \<Rightarrow> string \<Rightarrow> World \<times> response" where
  "redirectHandler w shortCode =
     (if shortCode = [] then (w, NotFound)
      else case cache w shortCode of
        Some originalURL \<Rightarrow>
          (w\<lparr>goroutines := goroutines w @ [shortCode]\<rparr>, Redirect 301 originalURL)
      | None \<Rightarrow>
          (case View (db w) (lookupOriginal shortCode) of
             Inl e \<Rightarrow> (w, NotFound)
           | Inr originalURL \<Rightarrow>
               if originalURL = [] then (w, NotFound)
               else (w\<lparr>cache := (cache w)(shortCode \<mapsto> originalURL),
                       goroutines := goroutines w @ [shortCode]\<rparr>,
                     Redirect 301 originalURL)))"

definition runGoroutine :: "fault list \<Rightarrow> nat \<Rightarrow> World \<Rightarrow> World" where
  \<comment> \<open>the scheduler runs the \<open>i\<close>-th waiting goroutine to its end; what
      \<^verbatim>\<open>app.DB.Update\<close> returns is dropped, as the goroutine drops it\<close>
  "runGoroutine fs i w =
     (if i < length (goroutines w)
      then w\<lparr>db := fst (incrementClicks fs (db w) (goroutines w ! i)),
             goroutines := take i (goroutines w) @ drop (Suc i) (goroutines w)\<rparr>
      else w)"

definition expireCache :: "string list \<Rightarrow> World \<Rightarrow> World" where
  \<comment> \<open>the entries under the given keys reach their time to live\<close>
  "expireCache ks w = w\<lparr>cache := (\<lambda>k. if k \<in> set ks then None else cache w k)\<rparr>"

section \<open>Start-up\<close>

definition setupDatabase :: "fault list \<Rightarrow> DB \<Rightarrow> DB \<times> err option" where
  "setupDatabase fs d =
     Update fs d
       (\<lambda>tx. if FailCreateUrls \<in> set fs then Inl ErrCreateBucket
             else
               let tx1 = tx\<lparr>urls := Some (bucketOrNew (urls tx))\<rparr>
               in if FailCreateReverse \<in> set fs then Inl ErrCreateBucket
                  else Inr (tx1\<lparr>reverse := Some (bucketOrNew (reverse tx1))\<rparr>))"

definition newDB :: DB where
  \<comment> \<open>what \<^verbatim>\<open>bolt.Open\<close> gives for a file that did not exist\<close>
  "newDB = \<lparr>opened = True, buckets = \<lparr>urls = None, reverse = None\<rparr>\<rparr>"

definition startServer :: "fault list \<Rightarrow> DB \<Rightarrow> World option" where
  \<comment> \<open>\<^verbatim>\<open>main\<close> from the opened store to the \<^verbatim>\<open>App\<close>; \<open>None\<close> is \<^verbatim>\<open>log.Fatal\<close>\<close>
  "startServer fs d =
     (case setupDatabase fs d of
        (d', Some e) \<Rightarrow> None
      | (d', None) \<Rightarrow> Some \<lparr>db = d', cache = Map.empty, logged = [], goroutines = []\<rparr>)"

definition listenPort :: "string \<Rightarrow> string" where
  \<comment> \<open>lines 496-499: the argument is the value of the environment variable \<^verbatim>\<open>PORT\<close>\<close>
  "listenPort portEnv = (if portEnv = [] then ''8080'' else portEnv)"

definition serverAddr :: "string \<Rightarrow> string" where
  "serverAddr port = '':'' @ port"

definition visitURL :: "string \<Rightarrow> string" where
  \<comment> \<open>the origin that line 502 announces\<close>
  "visitURL port = ''http://localhost:'' @ port"

text \<open>
  The states of the service: it starts on a new store file or on the one an earlier run
  left, serves requests one after the other, runs the goroutines it started at any later
  moment, and loses cache entries when they expire.
\<close>

inductive reachable :: "parser \<Rightarrow> World \<Rightarrow> bool" for Parse :: parser where
  start: "startServer fs newDB = Some w \<Longrightarrow> reachable Parse w"
| restart: "reachable Parse w \<Longrightarrow> startServer fs (db w) = Some w' \<Longrightarrow> reachable Parse w'"
| shorten:
    "reachable Parse w \<Longrightarrow> shortenHandler Parse env w verb body = Some (w', resp)
     \<Longrightarrow> reachable Parse w'"
| redirect: "reachable Parse w \<Longrightarrow> redirectHandler w shortCode = (w', resp) \<Longrightarrow> reachable Parse w'"
| goroutine: "reachable Parse w \<Longrightarrow> reachable Parse (runGoroutine fs i w)"
| expire: "reachable Parse w \<Longrightarrow> reachable Parse (expireCache ks w)"

text \<open>
  The consistency of store and cache that the handlers keep: every value of \<^verbatim>\<open>urls\<close> is a
  record stored under its own code whose URL the reverse index maps to that code, every
  entry of the reverse index points to the record of that URL, and every cache entry agrees
  with the record of its code.
\<close>

definition consistent :: "World \<Rightarrow> bool" where
  "consistent w \<longleftrightarrow>
     opened (db w) \<and>
     (\<forall>c v. urlsGet (db w) c = Some v \<longrightarrow>
        (\<exists>r. v = Marshalled r \<and> ShortCode r = c \<and> c \<noteq> [] \<and> OriginalURL r \<noteq> [] \<and>
             reverseGet (db w) (OriginalURL r) = Some c)) \<and>
     (\<forall>u c. reverseGet (db w) u = Some c \<longrightarrow>
        (\<exists>r. urlsGet (db w) c = Some (Marshalled r) \<and> OriginalURL r = u)) \<and>
     (\<forall>c u. cache w c = Some u \<longrightarrow>
        (\<exists>r. urlsGet (db w) c = Some (Marshalled r) \<and> OriginalURL r = u))"

section \<open>Requests that overlap\<close>

text \<open>
  \<^verbatim>\<open>net/http\<close> serves every request in a goroutine of its own, so the transactions of
  two calls of \<^verbatim>\<open>shortenHandler\<close> can alternate. A call consists of the read of the reverse
  index, one read of \<^verbatim>\<open>urls\<close> for every attempt of the code generator, and the write
  transaction; the three parts below are the text of the handler cut at these points.
\<close>

definition shortenBegin ::
  "parser \<Rightarrow> World \<Rightarrow> string \<Rightarrow> string option \<Rightarrow> (World \<times> response) + string" where
  \<comment> \<open>lines 99-151: the answer, or the normalized URL for which a code is to be generated\<close>
  "shortenBegin Parse w verb body =
     (if verb \<noteq> ''POST'' then Inl (w, PlainError 405 ''method not allowed'')
      else case body of
        None \<Rightarrow> Inl (w, JsonError 400 ''invalid json'')
      | Some reqURL \<Rightarrow>
          let url = normalizeURL reqURL
          in if \<not> isValidURL Parse url then Inl (w, JsonError 400 ''invalid url format'')
             else
               let (existingCode, err) =
                     (case View (db w) (findExisting url) of
                        Inl e \<Rightarrow> ([], Some e)
                      | Inr c \<Rightarrow> (c, None))
               in if err = None \<and> existingCode \<noteq> []
                  then Inl (w, JsonOK \<lparr>short_url = ''http://localhost:8080/'' @ existingCode,
                                        original_url = url, short_code = existingCode\<rparr>)
                  else Inr url)"

definition generateAttempt :: "DB \<Rightarrow> string \<Rightarrow> int64 \<Rightarrow> (err + string) option" where
  \<comment> \<open>one pass through \<^verbatim>\<open>generateShortCode\<close>, lines 53-88, with the clock reading it
      gets: \<open>None\<close> when the code exists and the function calls itself again\<close>
  "generateAttempt d originalURL now =
     (let hash = EncodeToString (md5_Sum (bytes_of (originalURL @ Sprintf_d (sint now))));
          shortCode = encodeLoop 0 hash []
      in case View d (codeExists shortCode) of
           Inl e \<Rightarrow> Some (Inl e)
         | Inr exists \<Rightarrow> if exists then None else Some (Inr shortCode))"

definition shortenWrite :: "ShortenEnv \<Rightarrow> World \<Rightarrow> string \<Rightarrow> string \<Rightarrow> World \<times> response" where
  \<comment> \<open>lines 164-216, for the URL and the code that the generator returned\<close>
  "shortenWrite env w url shortCode =
     (case Update (faults env) (db w) (saveURL (faults env) url shortCode (createdAt env)) of
        (d, Some e) \<Rightarrow>
          (w\<lparr>logged := logged w @ [LogInsertError e]\<rparr>, JsonError 500 ''failed to save url'')
      | (d, None) \<Rightarrow>
          (w\<lparr>db := d, cache := (cache w)(shortCode \<mapsto> url)\<rparr>,
           JsonOK \<lparr>short_url = ''http://localhost:8080/'' @ shortCode,
                   original_url = url, short_code = shortCode\<rparr>))"

text \<open>
  A call of \<^verbatim>\<open>shortenHandler\<close> that is under way is in the code generator, for its URL, or
  before its write transaction, with its URL and the code it generated.
\<close>

datatype inflight = Generating string | Writing string string

text \<open>
  The states of the service when requests overlap, with the calls of \<^verbatim>\<open>shortenHandler\<close>
  that are under way. Every step is one transaction of one request, together with what the
  request does before its next transaction. \<^verbatim>\<open>redirectHandler\<close> has a single read
  transaction and does not write to the store, and the goroutine has a single write
  transaction, so they are steps as before. An attempt of the generator that finds its code
  in the store changes nothing and is no step. A restart drops the calls under way.
\<close>

inductive interleaved :: "parser \<Rightarrow> World \<Rightarrow> inflight list \<Rightarrow> bool" for Parse :: parser where
  start: "startServer fs newDB = Some w \<Longrightarrow> interleaved Parse w []"
| restart: "interleaved Parse w fl \<Longrightarrow> startServer fs (db w) = Some w' \<Longrightarrow> interleaved Parse w' []"
| answered:
    "interleaved Parse w fl \<Longrightarrow> shortenBegin Parse w verb body = Inl (w', resp)
     \<Longrightarrow> interleaved Parse w' fl"
| accepted:
    "interleaved Parse w (pre @ post) \<Longrightarrow> shortenBegin Parse w verb body = Inr url
     \<Longrightarrow> interleaved Parse w (pre @ Generating url # post)"
| generated:
    "interleaved Parse w (pre @ Generating url # post)
     \<Longrightarrow> generateAttempt (db w) url now = Some (Inr shortCode)
     \<Longrightarrow> interleaved Parse w (pre @ Writing url shortCode # post)"
| generate_failed:
    "interleaved Parse w (pre @ Generating url # post)
     \<Longrightarrow> generateAttempt (db w) url now = Some (Inl e)
     \<Longrightarrow> interleaved Parse (w\<lparr>logged := logged w @ [LogGenerateError e]\<rparr>) (pre @ post)"
| written:
    "interleaved Parse w (pre @ Writing url shortCode # post)
     \<Longrightarrow> shortenWrite env w url shortCode = (w', resp)
     \<Longrightarrow> interleaved Parse w' (pre @ post)"
| redirect:
    "interleaved Parse w fl \<Longrightarrow> redirectHandler w shortCode = (w', resp)
     \<Longrightarrow> interleaved Parse w' fl"
| goroutine: "interleaved Parse w fl \<Longrightarrow> interleaved Parse (runGoroutine fs i w) fl"
| expire: "interleaved Parse w fl \<Longrightarrow> interleaved Parse (expireCache ks w) fl"

text \<open>
  What the store keeps when requests overlap: every value of \<^verbatim>\<open>urls\<close> is a record stored
  under its own code whose URL has an entry in the reverse index, and every entry of the
  reverse index names a code that has a record.
\<close>

definition paired :: "DB \<Rightarrow> bool" where
  "paired d \<longleftrightarrow>
     (\<forall>c v. urlsGet d c = Some v \<longrightarrow>
        (\<exists>x. v = Marshalled x \<and> ShortCode x = c \<and> reverseGet d (OriginalURL x) \<noteq> None)) \<and>
     (\<forall>u c. reverseGet d u = Some c \<longrightarrow> (\<exists>x. urlsGet d c = Some (Marshalled x)))"

section \<open>Sequential use and sample data\<close>

definition resolveAndSettle :: "string \<Rightarrow> string list \<Rightarrow> World \<Rightarrow> World" where
  \<comment> \<open>the cache entries \<open>ks\<close> expire, the code is resolved, and the goroutine that the
      request started runs to its end, without a fault, before anything else happens\<close>
  "resolveAndSettle shortCode ks w =
     runGoroutine [] 0 (fst (redirectHandler (expireCache ks w) shortCode))"

fun resolves :: "string \<Rightarrow> string list list \<Rightarrow> World \<Rightarrow> World" where
  \<comment> \<open>one resolve of the same code for every element of the list\<close>
  "resolves shortCode [] w = w"
| "resolves shortCode (ks # kss) w = resolves shortCode kss (resolveAndSettle shortCode ks w)"

text \<open>
  The examples run the handlers on these data. \<open>parseOnExamples\<close> stands in for
  \<^verbatim>\<open>url.Parse\<close>: on the two strings that the examples parse it returns the scheme and
  the host that \<^verbatim>\<open>url.Parse\<close> returns for them.
\<close>

definition parseOnExamples :: parser where
  "parseOnExamples s =
     (if s = ''https://a.com'' then Inr \<lparr>Scheme = ''https'', Host = ''a.com''\<rparr>
      else if s = ''https://'' then Inr \<lparr>Scheme = ''https'', Host = []\<rparr>
      else Inl ErrParse)"

definition env0 :: ShortenEnv where
  "env0 = \<lparr>clock = [1700000000000000000], createdAt = 1700000000000000500, faults = []\<rparr>"

definition env1 :: ShortenEnv where
  "env1 = \<lparr>clock = [1700000000000000000], createdAt = 1700000000000000500,
           faults = [FailPutReverse]\<rparr>"

definition world0 :: World where
  \<comment> \<open>the service started on a new store file\<close>
  "world0 =
     \<lparr>db = \<lparr>opened = True, buckets = \<lparr>urls = Some Map.empty, reverse = Some Map.empty\<rparr>\<rparr>,
      cache = Map.empty, logged = [], goroutines = []\<rparr>"

definition record0 :: URL where
  "record0 =
     \<lparr>ID = 0, OriginalURL = ''https://a.com'', ShortCode = ''0NJ4XWYM'',
      CreatedAt = 1700000000000000500, ClickCount = 0\<rparr>"

definition response0 :: ShortenResponse where
  "response0 =
     \<lparr>short_url = ''http://localhost:8080/0NJ4XWYM'', original_url = ''https://a.com'',
      short_code = ''0NJ4XWYM''\<rparr>"

definition world1 :: World where
  \<comment> \<open>\<open>world0\<close> after \<^verbatim>\<open>a.com\<close> has been shortened\<close>
  "world1 =
     \<lparr>db = \<lparr>opened = True,
             buckets = \<lparr>urls = Some [''0NJ4XWYM'' \<mapsto> Marshalled record0],
                        reverse = Some [''https://a.com'' \<mapsto> ''0NJ4XWYM'']\<rparr>\<rparr>,
      cache = [''0NJ4XWYM'' \<mapsto> ''https://a.com''], logged = [], goroutines = []\<rparr>"

definition env2 :: ShortenEnv where
  "env2 = \<lparr>clock = [1700000000000000001], createdAt = 1700000000000000900, faults = []\<rparr>"

definition record1 :: URL where
  "record1 =
     \<lparr>ID = 0, OriginalURL = ''https://a.com'', ShortCode = ''OOKK5W2N'',
      CreatedAt = 1700000000000000900, ClickCount = 0\<rparr>"

definition world2 :: World where
  \<comment> \<open>\<open>world0\<close> after two overlapping requests for \<^verbatim>\<open>a.com\<close>\<close>
  "world2 =
     \<lparr>db = \<lparr>opened = True,
             buckets = \<lparr>urls = Some [''0NJ4XWYM'' \<mapsto> Marshalled record0,
                                      ''OOKK5W2N'' \<mapsto> Marshalled record1],
                        reverse = Some [''https://a.com'' \<mapsto> ''OOKK5W2N'']\<rparr>\<rparr>,
      cache = [''0NJ4XWYM'' \<mapsto> ''https://a.com'', ''OOKK5W2N'' \<mapsto> ''https://a.com''],
      logged = [], goroutines = []\<rparr>"

section \<open>Properties of the code generator\<close>

lemma encodeLoop_eq:
  "i \<le> 8 \<Longrightarrow>
   encodeLoop i hash acc
     = acc @ map (\<lambda>ch. base62Chars ! (of_char ch mod 62)) (drop i (take 8 hash))"
proof (induction i hash acc rule: encodeLoop.induct)
  case (1 i hash shortCode)
  show ?case
  proof (cases "i < 8")
    case False
    with "1.prems" show ?thesis
      by (subst encodeLoop.simps) simp
  next
    case i8: True
    show ?thesis
    proof (cases "i < length hash")
      case True
      with i8 have "drop i (take 8 hash) = take 8 hash ! i # drop (Suc i) (take 8 hash)"
        by (intro Cons_nth_drop_Suc [symmetric]) simp
      with i8 have "drop i (take 8 hash) = hash ! i # drop (i + 1) (take 8 hash)"
        by simp
      with "1.IH"(1) i8 True show ?thesis
        by (subst encodeLoop.simps) simp
    next
      case False
      with "1.IH"(2) i8 show ?thesis
        by (subst encodeLoop.simps) simp
    qed
  qed
qed

lemma nib_hi: "unat (drop_bit 4 (b::byte)) < 16"
proof -
  have "unat b < 256" using unsigned_less [of b, where ?'a = nat] by simp
  then show ?thesis by (simp add: drop_bit_eq_div unat_div)
qed

lemma nib_lo: "unat ((b::byte) AND 0x0f) < 16"
proof -
  have "unat (b AND 15) \<le> unat (15 :: byte)"
    by (rule word_and_le1 [THEN word_le_nat_alt [THEN iffD1]])
  then show ?thesis by simp
qed

lemma hextable_nth: "n < 16 \<Longrightarrow> hextable ! n \<in> set hextable"
  by (rule nth_mem) (simp add: hextable_def)

lemma set_EncodeToString: "set (EncodeToString bs) \<subseteq> set hextable"
  by (induction bs) (auto intro: hextable_nth nib_hi nib_lo)

lemma length_EncodeToString: "length (EncodeToString bs) = 2 * length bs"
  by (induction bs) auto

lemma length_word_bytes: "length (word_bytes n w) = n"
  by (induction n arbitrary: w) auto

lemma length_md5_Sum: "length (md5_Sum msg) = 16"
  by (simp add: md5_Sum_def length_word_bytes split: prod.splits)

lemma hex_to_sym_all: "\<forall>ch \<in> set hextable. base62Chars ! (of_char ch mod 62) \<in> set ''JKLMNOWXYZ012345''"
  by (simp add: hextable_def base62Chars_def)

lemma hex_to_sym: "ch \<in> set hextable \<Longrightarrow> base62Chars ! (of_char ch mod 62) \<in> set ''JKLMNOWXYZ012345''"
  using hex_to_sym_all by blast

lemma sym16_sym62: "set ''JKLMNOWXYZ012345'' \<subseteq> set base62Chars"
  by (simp add: base62Chars_def)

lemma set_hexCode: "set (hexCode d) \<subseteq> set ''JKLMNOWXYZ012345''"
  unfolding hexCode_def using set_EncodeToString [of d] hex_to_sym
  by (auto dest!: in_set_takeD)

lemma length_hexCode: "length (hexCode (md5_Sum msg)) = 8"
  by (simp add: hexCode_def length_EncodeToString length_md5_Sum)

lemma encode_hexCode: "encodeLoop 0 (EncodeToString d) [] = hexCode d"
proof -
  have "encodeLoop 0 (EncodeToString d) []
          = [] @ map (\<lambda>ch. base62Chars ! (of_char ch mod 62)) (drop 0 (take 8 (EncodeToString d)))"
    by (rule encodeLoop_eq) simp
  then show ?thesis by (simp only: hexCode_def append_Nil drop_0)
qed

lemma generateShortCode_Cons:
  "generateShortCode d url (t # ts) =
     (if \<not> opened d then Some (Inl ErrDatabaseNotOpen)
      else if urlsGet d (codeAt url t) \<noteq> None then generateShortCode d url ts
      else Some (Inr (codeAt url t)))"
  by (simp add: generateShortCode.simps(2) Let_def View_def codeExists_def urlsGet_def
      codeAt_def encode_hexCode split: option.splits)

lemma generateShortCode_find:
  "generateShortCode d url ts =
     (if ts = [] then None
      else if \<not> opened d then Some (Inl ErrDatabaseNotOpen)
      else map_option (\<lambda>t. Inr (codeAt url t)) (find (\<lambda>t. urlsGet d (codeAt url t) = None) ts))"
proof (induction ts)
  case Nil
  show ?case by simp
next
  case (Cons t ts)
  show ?case
    unfolding generateShortCode_Cons using Cons.IH by (cases ts) simp_all
qed

section \<open>Properties of the store operations\<close>

lemma Update_cases:
  "Update fs d fn = (d', r) \<Longrightarrow>
     (r \<noteq> None \<and> d' = d) \<or>
     (r = None \<and> opened d \<and> FailCommit \<notin> set fs \<and> (\<exists>tx. fn (buckets d) = Inr tx \<and> d' = d\<lparr>buckets := tx\<rparr>))"
  by (auto simp: Update_def split: if_splits sum.splits)

lemma Update_failed: "Update fs d fn = (d', Some e) \<Longrightarrow> d' = d"
  by (auto dest: Update_cases)

lemma saveURL_Inr:
  "saveURL fs u c now tx = Inr tx' \<Longrightarrow>
     set fs \<subseteq> {FailCommit} \<and>
     urls tx' = Some ((bucketOrNew (urls tx))(c \<mapsto> Marshalled
        \<lparr>ID = 0, OriginalURL = u, ShortCode = c, CreatedAt = now, ClickCount = 0\<rparr>)) \<and>
     reverse tx' = Some ((bucketOrNew (reverse tx))(u \<mapsto> c))"
proof -
  assume a: "saveURL fs u c now tx = Inr tx'"
  have "f \<in> set fs \<Longrightarrow> f = FailCommit" for f
    using a by (cases f) (auto simp: saveURL_def Let_def split: if_splits)
  moreover from a have "urls tx' = Some ((bucketOrNew (urls tx))(c \<mapsto> Marshalled
        \<lparr>ID = 0, OriginalURL = u, ShortCode = c, CreatedAt = now, ClickCount = 0\<rparr>))"
    by (auto simp: saveURL_def Let_def split: if_splits)
  moreover from a have "reverse tx' = Some ((bucketOrNew (reverse tx))(u \<mapsto> c))"
    by (auto simp: saveURL_def Let_def split: if_splits)
  ultimately show ?thesis by auto
qed

lemma saved:
  assumes "Update fs d (saveURL fs u c now) = (d', None)"
  shows "opened d" and "opened d'" and "fs = []"
    and "urlsGet d' = (urlsGet d)(c \<mapsto> Marshalled
           \<lparr>ID = 0, OriginalURL = u, ShortCode = c, CreatedAt = now, ClickCount = 0\<rparr>)"
    and "reverseGet d' = (reverseGet d)(u \<mapsto> c)"
proof -
  from Update_cases [OF assms] obtain tx where
    o: "opened d" and nc: "FailCommit \<notin> set fs" and
    tx: "saveURL fs u c now (buckets d) = Inr tx" and d': "d' = d\<lparr>buckets := tx\<rparr>"
    by auto
  note s = saveURL_Inr [OF tx]
  show "opened d" by (rule o)
  show "opened d'" using o d' by simp
  show "fs = []" using s nc by (cases fs) auto
  show "urlsGet d' = (urlsGet d)(c \<mapsto> Marshalled
           \<lparr>ID = 0, OriginalURL = u, ShortCode = c, CreatedAt = now, ClickCount = 0\<rparr>)"
    using s d' by (auto simp: urlsGet_def bucketOrNew_def fun_eq_iff split: option.splits)
  show "reverseGet d' = (reverseGet d)(u \<mapsto> c)"
    using s d' by (auto simp: reverseGet_def bucketOrNew_def fun_eq_iff split: option.splits)
qed

lemma generated:
  assumes "generateShortCode d url ts = Some (Inr c)"
  shows "opened d" and "urlsGet d c = None" and "\<exists>t \<in> set ts. c = codeAt url t"
    and "length c = 8" and "set c \<subseteq> set ''JKLMNOWXYZ012345''"
proof -
  from assms have ne: "ts \<noteq> []" and o: "opened d"
    by (auto simp: generateShortCode_find split: if_splits)
  with assms obtain t where
    f: "find (\<lambda>t. urlsGet d (codeAt url t) = None) ts = Some t" and c: "c = codeAt url t"
    by (auto simp: generateShortCode_find)
  show "opened d" by (rule o)
  from f show "urlsGet d c = None" unfolding c by (auto simp: find_Some_iff)
  from f have "t \<in> set ts" by (auto simp: find_Some_iff)
  with c show "\<exists>t \<in> set ts. c = codeAt url t" by blast
  show "length c = 8" by (simp add: c codeAt_def length_hexCode)
  show "set c \<subseteq> set ''JKLMNOWXYZ012345''" unfolding c codeAt_def by (rule set_hexCode)
qed

lemma normalizeURL_nonempty: "normalizeURL u \<noteq> []"
  by (auto simp: normalizeURL_def HasPrefix_def)

section \<open>The paths through the handlers\<close>

lemma findExisting_reverseGet:
  "findExisting u (buckets d) = (case reverseGet d u of None \<Rightarrow> [] | Some c \<Rightarrow> c)"
  by (simp add: findExisting_def reverseGet_def split: option.splits)

lemma shortenHandler_valid:
  assumes "isValidURL P (normalizeURL q)"
  shows "shortenHandler P env w ''POST'' (Some q) =
     (if opened (db w) \<and> findExisting (normalizeURL q) (buckets (db w)) \<noteq> []
      then Some (w, JsonOK \<lparr>short_url = ''http://localhost:8080/'' @ findExisting (normalizeURL q) (buckets (db w)),
                            original_url = normalizeURL q,
                            short_code = findExisting (normalizeURL q) (buckets (db w))\<rparr>)
      else case generateShortCode (db w) (normalizeURL q) (clock env) of
             None \<Rightarrow> None
           | Some (Inl e) \<Rightarrow>
               Some (w\<lparr>logged := logged w @ [LogGenerateError e]\<rparr>, JsonError 500 ''server error'')
           | Some (Inr shortCode) \<Rightarrow>
               (case Update (faults env) (db w)
                       (saveURL (faults env) (normalizeURL q) shortCode (createdAt env)) of
                  (d, Some e) \<Rightarrow>
                    Some (w\<lparr>logged := logged w @ [LogInsertError e]\<rparr>,
                          JsonError 500 ''failed to save url'')
                | (d, None) \<Rightarrow>
                    Some (w\<lparr>db := d, cache := (cache w)(shortCode \<mapsto> normalizeURL q)\<rparr>,
                          JsonOK \<lparr>short_url = ''http://localhost:8080/'' @ shortCode,
                                  original_url = normalizeURL q, short_code = shortCode\<rparr>)))"
  using assms by (simp add: shortenHandler_def Let_def View_def)

lemma shortenHandler_invalid:
  "shortenHandler P env w m body = Some (w', resp) \<Longrightarrow>
   \<not> (\<exists>q. m = ''POST'' \<and> body = Some q \<and> isValidURL P (normalizeURL q)) \<Longrightarrow>
   w' = w \<and> (\<forall>r. resp \<noteq> JsonOK r)"
  by (auto simp: shortenHandler_def Let_def split: if_splits option.splits)

lemma shortenHandler_cases:
  assumes "shortenHandler P env w m body = Some (w', resp)"
  obtains
    (unchanged) "w' = w" "\<forall>r. resp \<noteq> JsonOK r"
  | (existing) q c where "m = ''POST''" "body = Some q" "isValidURL P (normalizeURL q)"
      "opened (db w)" "reverseGet (db w) (normalizeURL q) = Some c" "c \<noteq> []" "w' = w"
      "resp = JsonOK \<lparr>short_url = ''http://localhost:8080/'' @ c,
                      original_url = normalizeURL q, short_code = c\<rparr>"
  | (failed) l where "w' = w\<lparr>logged := logged w @ [l]\<rparr>" "\<forall>r. resp \<noteq> JsonOK r"
  | (created) q c d where "m = ''POST''" "body = Some q" "isValidURL P (normalizeURL q)"
      "reverseGet (db w) (normalizeURL q) = None \<or> reverseGet (db w) (normalizeURL q) = Some []"
      "generateShortCode (db w) (normalizeURL q) (clock env) = Some (Inr c)"
      "Update (faults env) (db w) (saveURL (faults env) (normalizeURL q) c (createdAt env)) = (d, None)"
      "w' = w\<lparr>db := d, cache := (cache w)(c \<mapsto> normalizeURL q)\<rparr>"
      "resp = JsonOK \<lparr>short_url = ''http://localhost:8080/'' @ c,
                      original_url = normalizeURL q, short_code = c\<rparr>"
proof (cases "\<exists>q. m = ''POST'' \<and> body = Some q \<and> isValidURL P (normalizeURL q)")
  case False
  from shortenHandler_invalid [OF assms False] show ?thesis
    by (intro unchanged) simp_all
next
  case True
  then obtain q where q: "m = ''POST''" "body = Some q" "isValidURL P (normalizeURL q)" by blast
  define u where "u = normalizeURL q"
  note eq = assms [unfolded q(1,2) shortenHandler_valid [OF q(3)], folded u_def]
  note q3 = q(3) [folded u_def]
  show ?thesis
  proof (cases "opened (db w) \<and> findExisting u (buckets (db w)) \<noteq> []")
    case True
    then have rg: "reverseGet (db w) u = Some (findExisting u (buckets (db w)))"
      by (auto simp: findExisting_reverseGet split: option.splits)
    from eq True have "w' = w"
      and "resp = JsonOK \<lparr>short_url = ''http://localhost:8080/'' @ findExisting u (buckets (db w)),
                          original_url = u, short_code = findExisting u (buckets (db w))\<rparr>"
      by auto
    with True rg show ?thesis
      unfolding u_def by (intro existing [OF q]) simp_all
  next
    case False
    show ?thesis
    proof (cases "generateShortCode (db w) u (clock env)")
      case None
      with eq False show ?thesis by simp
    next
      case (Some g)
      show ?thesis
      proof (cases g)
        case (Inl e)
        with eq False Some have "w' = w\<lparr>logged := logged w @ [LogGenerateError e]\<rparr>"
          and "resp = JsonError 500 ''server error''"
          by auto
        then show ?thesis by (intro failed) simp_all
      next
        case (Inr c)
        with Some have gen: "generateShortCode (db w) u (clock env) = Some (Inr c)" by simp
        from generated(1) [OF gen] have o: "opened (db w)" .
        with False have rg: "reverseGet (db w) u = None \<or> reverseGet (db w) u = Some []"
          by (auto simp: findExisting_reverseGet split: option.splits)
        obtain d r where upd: "Update (faults env) (db w)
            (saveURL (faults env) u c (createdAt env)) = (d, r)"
          by fastforce
        show ?thesis
        proof (cases r)
          case None
          with eq False gen upd have "w' = w\<lparr>db := d, cache := (cache w)(c \<mapsto> u)\<rparr>"
            and "resp = JsonOK \<lparr>short_url = ''http://localhost:8080/'' @ c,
                                original_url = u, short_code = c\<rparr>"
            by auto
          with rg gen upd None show ?thesis
            unfolding u_def by (intro created [OF q]) simp_all
        next
          case (Some e)
          with eq False gen upd have "w' = w\<lparr>logged := logged w @ [LogInsertError e]\<rparr>"
            and "resp = JsonError 500 ''failed to save url''"
            by auto
          then show ?thesis by (intro failed) simp_all
        qed
      qed
    qed
  qed
qed

section \<open>The consistency of store and cache is kept\<close>

lemma lookupOriginal_urlsGet:
  "lookupOriginal c (buckets d) =
     (case urlsGet d c of None \<Rightarrow> [] | Some Malformed \<Rightarrow> [] | Some (Marshalled r) \<Rightarrow> OriginalURL r)"
  by (simp add: lookupOriginal_def urlsGet_def split: option.splits blob.splits)

lemma incrementClicks_effect:
  assumes "fst (incrementClicks fs d c) = d'"
  shows "opened d' = opened d" and "reverseGet d' = reverseGet d"
    and "urlsGet d' = urlsGet d \<or>
         (\<exists>r. urlsGet d c = Some (Marshalled r) \<and> opened d \<and>
              urlsGet d' = (urlsGet d)(c \<mapsto> Marshalled (r\<lparr>ClickCount := ClickCount r + 1\<rparr>)))"
proof -
  obtain r where u: "Update fs d (bumpClicks fs c) = (d', r)"
    using assms by (cases "Update fs d (bumpClicks fs c)") (simp add: incrementClicks_def)
  from Update_cases [OF u]
  consider "d' = d" | tx where "opened d" "FailCommit \<notin> set fs" "bumpClicks fs c (buckets d) = Inr tx" "d' = d\<lparr>buckets := tx\<rparr>"
    by blast
  then have "opened d' = opened d \<and> reverseGet d' = reverseGet d \<and> (urlsGet d' = urlsGet d \<or>
         (\<exists>r. urlsGet d c = Some (Marshalled r) \<and> opened d \<and>
              urlsGet d' = (urlsGet d)(c \<mapsto> Marshalled (r\<lparr>ClickCount := ClickCount r + 1\<rparr>))))"
  proof cases
    case 1
    then show ?thesis by simp
  next
    case 2
    show ?thesis
    proof (cases "tx = buckets d")
      case True
      with 2 show ?thesis by simp
    next
      case False
      with 2(3) obtain bucket r where
        b: "urls (buckets d) = Some bucket" "bucket c = Some (Marshalled r)"
           "FailMarshal \<notin> set fs" "FailPutRecord \<notin> set fs"
           "tx = (buckets d)\<lparr>urls := Some (bucket(c \<mapsto> Marshalled (r\<lparr>ClickCount := ClickCount r + 1\<rparr>)))\<rparr>"
        by (auto simp: bumpClicks_def Let_def split: option.splits blob.splits sum.splits if_splits
            elim!: Unmarshal.elims)
      from b 2 show ?thesis
        by (auto simp: urlsGet_def reverseGet_def fun_eq_iff)
    qed
  qed
  then show "opened d' = opened d" and "reverseGet d' = reverseGet d"
    and "urlsGet d' = urlsGet d \<or>
         (\<exists>r. urlsGet d c = Some (Marshalled r) \<and> opened d \<and>
              urlsGet d' = (urlsGet d)(c \<mapsto> Marshalled (r\<lparr>ClickCount := ClickCount r + 1\<rparr>)))"
    by blast+
qed

lemma incrementClicks_ok:
  assumes "opened d" and "urlsGet d c = Some (Marshalled r)"
  shows "urlsGet (fst (incrementClicks [] d c))
           = (urlsGet d)(c \<mapsto> Marshalled (r\<lparr>ClickCount := ClickCount r + 1\<rparr>))"
proof -
  from assms obtain bucket where "urls (buckets d) = Some bucket" "bucket c = Some (Marshalled r)"
    by (auto simp: urlsGet_def split: option.splits)
  with assms(1) show ?thesis
    by (auto simp: incrementClicks_def Update_def bumpClicks_def urlsGet_def fun_eq_iff)
qed

lemma setupDatabase_effect:
  assumes "setupDatabase fs d = (d', None)"
  shows "opened d'" and "urlsGet d' = urlsGet d" and "reverseGet d' = reverseGet d"
proof -
  from Update_cases [OF assms [unfolded setupDatabase_def]] obtain tx where
    o: "opened d" and d': "d' = d\<lparr>buckets := tx\<rparr>" and
    tx: "(if FailCreateUrls \<in> set fs then Inl ErrCreateBucket
          else let tx1 = (buckets d)\<lparr>urls := Some (bucketOrNew (urls (buckets d)))\<rparr>
               in if FailCreateReverse \<in> set fs then Inl ErrCreateBucket
                  else Inr (tx1\<lparr>reverse := Some (bucketOrNew (reverse tx1))\<rparr>)) = Inr tx"
    by auto
  from o d' show "opened d'" by simp
  from tx d' show "urlsGet d' = urlsGet d"
    by (auto simp: urlsGet_def bucketOrNew_def Let_def fun_eq_iff split: if_splits option.splits)
  from tx d' show "reverseGet d' = reverseGet d"
    by (auto simp: reverseGet_def bucketOrNew_def Let_def fun_eq_iff split: if_splits option.splits)
qed

lemma consistent_logged [simp]: "consistent (w\<lparr>logged := l\<rparr>) = consistent w"
  by (simp add: consistent_def)

lemma consistent_goroutines [simp]: "consistent (w\<lparr>goroutines := g\<rparr>) = consistent w"
  by (simp add: consistent_def)

lemma consistent_start: "startServer fs newDB = Some w \<Longrightarrow> consistent w"
proof -
  assume a: "startServer fs newDB = Some w"
  then obtain d where s: "setupDatabase fs newDB = (d, None)"
    and w: "w = \<lparr>db = d, cache = Map.empty, logged = [], goroutines = []\<rparr>"
    by (auto simp: startServer_def split: prod.splits option.splits)
  from setupDatabase_effect [OF s] w show ?thesis
    by (simp add: consistent_def urlsGet_def reverseGet_def newDB_def)
qed

lemma consistent_restart:
  assumes "consistent w" and "startServer fs (db w) = Some w'"
  shows "consistent w'"
proof -
  from assms(2) obtain d where s: "setupDatabase fs (db w) = (d, None)"
    and w: "w' = \<lparr>db = d, cache = Map.empty, logged = [], goroutines = []\<rparr>"
    by (auto simp: startServer_def split: prod.splits option.splits)
  from setupDatabase_effect [OF s] w assms(1) show ?thesis
    by (simp add: consistent_def)
qed

lemma consistent_expire: "consistent w \<Longrightarrow> consistent (expireCache ks w)"
  by (simp add: consistent_def expireCache_def)

lemma consistent_goroutine:
  assumes "consistent w"
  shows "consistent (runGoroutine fs i w)"
proof (cases "i < length (goroutines w)")
  case False
  with assms show ?thesis by (simp add: runGoroutine_def)
next
  case True
  define c where "c = goroutines w ! i"
  define d' where "d' = fst (incrementClicks fs (db w) c)"
  have e: "fst (incrementClicks fs (db w) c) = d'" by (simp add: d'_def)
  note eff = incrementClicks_effect [OF e]
  have "consistent (w\<lparr>db := d'\<rparr>)"
    using eff(3)
  proof
    assume "urlsGet d' = urlsGet (db w)"
    with eff(1,2) assms show ?thesis by (simp add: consistent_def)
  next
    assume "\<exists>r. urlsGet (db w) c = Some (Marshalled r) \<and> opened (db w) \<and>
              urlsGet d' = (urlsGet (db w))(c \<mapsto> Marshalled (r\<lparr>ClickCount := ClickCount r + 1\<rparr>))"
    then obtain r where r: "urlsGet (db w) c = Some (Marshalled r)"
      and u: "urlsGet d' = (urlsGet (db w))(c \<mapsto> Marshalled (r\<lparr>ClickCount := ClickCount r + 1\<rparr>))"
      by blast
    from assms r have rc: "ShortCode r = c" "c \<noteq> []" "OriginalURL r \<noteq> []"
      "reverseGet (db w) (OriginalURL r) = Some c"
      unfolding consistent_def by auto
    show ?thesis
      unfolding consistent_def
    proof (intro conjI allI impI)
      show "opened (db (w\<lparr>db := d'\<rparr>))" using eff(1) assms by (simp add: consistent_def)
    next
      fix k v assume "urlsGet (db (w\<lparr>db := d'\<rparr>)) k = Some v"
      then show "\<exists>r. v = Marshalled r \<and> ShortCode r = k \<and> k \<noteq> [] \<and> OriginalURL r \<noteq> [] \<and>
             reverseGet (db (w\<lparr>db := d'\<rparr>)) (OriginalURL r) = Some k"
        using assms rc eff(2) u unfolding consistent_def by (cases "k = c") auto
    next
      fix x k assume "reverseGet (db (w\<lparr>db := d'\<rparr>)) x = Some k"
      then show "\<exists>r. urlsGet (db (w\<lparr>db := d'\<rparr>)) k = Some (Marshalled r) \<and> OriginalURL r = x"
        using assms r eff(2) u unfolding consistent_def by (cases "k = c") fastforce+
    next
      fix k x assume "cache (w\<lparr>db := d'\<rparr>) k = Some x"
      then show "\<exists>r. urlsGet (db (w\<lparr>db := d'\<rparr>)) k = Some (Marshalled r) \<and> OriginalURL r = x"
        using assms r u unfolding consistent_def by (cases "k = c") fastforce+
    qed
  qed
  with True show ?thesis
    by (simp add: runGoroutine_def c_def d'_def)
qed

lemma redirectHandler_cases:
  assumes "redirectHandler w c = (w', resp)"
  obtains
    (notfound) "w' = w" "resp = NotFound"
  | (hit) u where "c \<noteq> []" "cache w c = Some u"
      "w' = w\<lparr>goroutines := goroutines w @ [c]\<rparr>" "resp = Redirect 301 u"
  | (miss) u where "c \<noteq> []" "cache w c = None" "opened (db w)"
      "lookupOriginal c (buckets (db w)) = u" "u \<noteq> []"
      "w' = w\<lparr>cache := (cache w)(c \<mapsto> u), goroutines := goroutines w @ [c]\<rparr>"
      "resp = Redirect 301 u"
  using assms
  by (auto simp: redirectHandler_def View_def split: if_splits option.splits)

lemma consistent_redirect:
  assumes "consistent w" and "redirectHandler w c = (w', resp)"
  shows "consistent w'"
  using assms(2)
proof (cases rule: redirectHandler_cases)
  case notfound
  with assms(1) show ?thesis by simp
next
  case (hit u)
  with assms(1) show ?thesis by simp
next
  case (miss u)
  from miss(4,5) obtain r where r: "urlsGet (db w) c = Some (Marshalled r)" "OriginalURL r = u"
    by (auto simp: lookupOriginal_urlsGet split: option.splits blob.splits)
  have "consistent (w\<lparr>cache := (cache w)(c \<mapsto> u)\<rparr>)"
    using assms(1) r unfolding consistent_def by auto
  with miss show ?thesis by simp
qed

lemma consistent_created:
  assumes cw: "consistent w"
    and rg: "reverseGet (db w) u = None \<or> reverseGet (db w) u = Some []"
    and gen: "generateShortCode (db w) u ts = Some (Inr c)"
    and upd: "Update fs (db w) (saveURL fs u c now) = (d, None)"
    and u: "u \<noteq> []"
  shows "consistent (w\<lparr>db := d, cache := (cache w)(c \<mapsto> u)\<rparr>)"
proof -
  note g = generated [OF gen]
  note s = saved [OF upd]
  from g(4) have c: "c \<noteq> []" by auto
  from cw have i1: "\<And>k v. urlsGet (db w) k = Some v \<Longrightarrow>
        \<exists>r. v = Marshalled r \<and> ShortCode r = k \<and> k \<noteq> [] \<and> OriginalURL r \<noteq> [] \<and>
             reverseGet (db w) (OriginalURL r) = Some k"
    and i2: "\<And>x k. reverseGet (db w) x = Some k \<Longrightarrow>
        \<exists>r. urlsGet (db w) k = Some (Marshalled r) \<and> OriginalURL r = x"
    and i3: "\<And>k x. cache w k = Some x \<Longrightarrow>
        \<exists>r. urlsGet (db w) k = Some (Marshalled r) \<and> OriginalURL r = x"
    unfolding consistent_def by blast+
  from rg i2 i1 have rn: "reverseGet (db w) u = None" by fastforce
  show ?thesis
    unfolding consistent_def
  proof (intro conjI allI impI)
    show "opened (db (w\<lparr>db := d, cache := (cache w)(c \<mapsto> u)\<rparr>))" using s(2) by simp
  next
    fix k v assume a: "urlsGet (db (w\<lparr>db := d, cache := (cache w)(c \<mapsto> u)\<rparr>)) k = Some v"
    show "\<exists>r. v = Marshalled r \<and> ShortCode r = k \<and> k \<noteq> [] \<and> OriginalURL r \<noteq> [] \<and>
             reverseGet (db (w\<lparr>db := d, cache := (cache w)(c \<mapsto> u)\<rparr>)) (OriginalURL r) = Some k"
    proof (cases "k = c")
      case True
      with a s(4) have "v = Marshalled \<lparr>ID = 0, OriginalURL = u, ShortCode = c,
          CreatedAt = now, ClickCount = 0\<rparr>" by simp
      with True s(5) c u show ?thesis by simp
    next
      case False
      with a s(4) have "urlsGet (db w) k = Some v" by simp
      from i1 [OF this] obtain r where r: "v = Marshalled r" "ShortCode r = k" "k \<noteq> []"
        "OriginalURL r \<noteq> []" "reverseGet (db w) (OriginalURL r) = Some k" by blast
      with rn have "OriginalURL r \<noteq> u" by auto
      with r s(5) show ?thesis by simp
    qed
  next
    fix x k assume a: "reverseGet (db (w\<lparr>db := d, cache := (cache w)(c \<mapsto> u)\<rparr>)) x = Some k"
    show "\<exists>r. urlsGet (db (w\<lparr>db := d, cache := (cache w)(c \<mapsto> u)\<rparr>)) k = Some (Marshalled r)
              \<and> OriginalURL r = x"
    proof (cases "x = u")
      case True
      with a s(4,5) show ?thesis by simp
    next
      case False
      with a s(5) have "reverseGet (db w) x = Some k" by simp
      from i2 [OF this] obtain r where r: "urlsGet (db w) k = Some (Marshalled r)" "OriginalURL r = x"
        by blast
      with g(2) have "k \<noteq> c" by auto
      with r s(4) show ?thesis by simp
    qed
  next
    fix k x assume a: "cache (w\<lparr>db := d, cache := (cache w)(c \<mapsto> u)\<rparr>) k = Some x"
    show "\<exists>r. urlsGet (db (w\<lparr>db := d, cache := (cache w)(c \<mapsto> u)\<rparr>)) k = Some (Marshalled r)
              \<and> OriginalURL r = x"
    proof (cases "k = c")
      case True
      with a s(4) show ?thesis by simp
    next
      case False
      with a have "cache w k = Some x" by simp
      from i3 [OF this] False s(4) show ?thesis by simp
    qed
  qed
qed

lemma consistent_shorten:
  assumes "consistent w" and "shortenHandler P env w m body = Some (w', resp)"
  shows "consistent w'"
  using assms(2)
proof (cases rule: shortenHandler_cases)
  case unchanged
  with assms(1) show ?thesis by simp
next
  case (existing q c)
  with assms(1) show ?thesis by simp
next
  case (failed l)
  with assms(1) show ?thesis by simp
next
  case (created q c d)
  from consistent_created [OF assms(1) created(4,5,6) normalizeURL_nonempty] created(7)
  show ?thesis by simp
qed

lemma reachable_consistent: "reachable P w \<Longrightarrow> consistent w"
proof (induction rule: reachable.induct)
  case (start fs w)
  then show ?case by (rule consistent_start)
next
  case (restart w fs w')
  then show ?case by (auto intro: consistent_restart)
next
  case (shorten w env verb body w' resp)
  then show ?case by (auto intro: consistent_shorten)
next
  case (redirect w shortCode w' resp)
  then show ?case by (auto intro: consistent_redirect)
next
  case (goroutine w fs i)
  then show ?case by (auto intro: consistent_goroutine)
next
  case (expire w ks)
  then show ?case by (auto intro: consistent_expire)
qed

section \<open>A run on concrete data\<close>

lemma Sprintf_sample0: "Sprintf_d 1700000000000000000 = ''1700000000000000000''"
  by code_simp

lemma digest_sample0:
  "md5_Sum (bytes_of ''https://a.com1700000000000000000'')
     = [0x4e, 0xa8, 0x10, 0x2d, 0x31, 0x25, 0xba, 0xee, 0xef, 0xa3, 0x2a, 0x5a, 0x45, 0x6e, 0x92, 0xa7]"
  by code_simp

lemma codeAt_sample0: "codeAt ''https://a.com'' 1700000000000000000 = ''0NJ4XWYM''"
  by (simp add: codeAt_def Sprintf_sample0 digest_sample0 hexCode_def hextable_def base62Chars_def)

lemma digestCode_sample0:
  "digestCode (md5_Sum (bytes_of (''https://a.com'' @ Sprintf_d (sint (1700000000000000000 :: int64))))) = ''qSqTXLa0''"
  by (simp add: Sprintf_sample0 digest_sample0 digestCode_def base62Chars_def)

lemma start_world0: "startServer [] newDB = Some world0"
  by (simp add: startServer_def setupDatabase_def Update_def newDB_def world0_def Let_def
      bucketOrNew_def)

lemma reachable_world0: "reachable P world0"
  using start_world0 by (rule reachable.start)

lemma valid_sample: "isValidURL parseOnExamples (normalizeURL ''a.com'')"
  by (simp add: isValidURL_def normalizeURL_def HasPrefix_def parseOnExamples_def)

lemma normalize_sample: "normalizeURL ''a.com'' = ''https://a.com''"
  by (simp add: normalizeURL_def HasPrefix_def)

lemma generate_sample0:
  "generateShortCode (db world0) ''https://a.com'' [1700000000000000000] = Some (Inr ''0NJ4XWYM'')"
  by (simp add: generateShortCode_find codeAt_sample0 world0_def urlsGet_def)

lemma shorten_sample:
  "shortenHandler parseOnExamples env0 world0 ''POST'' (Some ''a.com'') = Some (world1, JsonOK response0)"
  unfolding shortenHandler_valid [OF valid_sample] normalize_sample
  by (simp add: env0_def generate_sample0)
    (simp add: world0_def world1_def response0_def record0_def findExisting_def
      Update_def saveURL_def Let_def bucketOrNew_def)

lemma reachable_world1: "reachable parseOnExamples world1"
  using reachable_world0 shorten_sample by (rule reachable.shorten)

lemma hex_digit_codes:
  "\<forall>ch \<in> set hextable. (48 \<le> (of_char ch :: nat) \<and> (of_char ch :: nat) \<le> 57) \<or> (97 \<le> (of_char ch :: nat) \<and> (of_char ch :: nat) \<le> 102)"
  by (simp add: hextable_def)

lemma digest_sample1:
  "md5_Sum (bytes_of ''https://a.com1700000000000000001'')
     = [0xff, 0xbb, 0x90, 0x6e, 0x52, 0x19, 0xbe, 0x26, 0x42, 0x85, 0x2c, 0x9e, 0xa7, 0xe8, 0x16, 0xe9]"
  by code_simp

lemma Sprintf_sample1: "Sprintf_d 1700000000000000001 = ''1700000000000000001''"
  by code_simp

lemma codeAt_sample1: "codeAt ''https://a.com'' 1700000000000000001 = ''OOKK5W2N''"
  by (simp add: codeAt_def Sprintf_sample1 digest_sample1 hexCode_def hextable_def base62Chars_def)

lemma generate_sample1:
  "generateShortCode (db world1) ''https://a.com'' [1700000000000000000, 1700000000000000001]
     = Some (Inr ''OOKK5W2N'')"
  by (simp add: generateShortCode_find codeAt_sample0 codeAt_sample1 world1_def urlsGet_def)

section \<open>The claims about the code generator\<close>

text \<open>
  Claim C4. Every code that \<^verbatim>\<open>generateShortCode\<close> returns is made of the sixteen symbols
  \<open>J K L M N O W X Y Z 0 1 2 3 4 5\<close> only: it is the image, under the character code
  modulo 62 and the alphabet, of the first eight characters of the hexadecimal text of the
  digest for one of the clock readings, and the characters of that text have the codes
  48 to 57 and 97 to 102.
\<close>

theorem generated_code_alphabet:
  assumes "generateShortCode d url ts = Some (Inr c)"
  shows "set c \<subseteq> set ''JKLMNOWXYZ012345'' \<and>
         (\<exists>t \<in> set ts.
            c = map (\<lambda>ch. base62Chars ! (of_char ch mod 62))
                  (take 8 (EncodeToString (md5_Sum (bytes_of (url @ Sprintf_d (sint t)))))) \<and>
            (\<forall>ch \<in> set (EncodeToString (md5_Sum (bytes_of (url @ Sprintf_d (sint t))))).
               (48 \<le> (of_char ch :: nat) \<and> (of_char ch :: nat) \<le> 57) \<or>
               (97 \<le> (of_char ch :: nat) \<and> (of_char ch :: nat) \<le> 102)))"
proof -
  from generated(3) [OF assms] obtain t where t: "t \<in> set ts" "c = codeAt url t" by blast
  have "\<forall>ch \<in> set (EncodeToString (md5_Sum (bytes_of (url @ Sprintf_d (sint t))))).
               (48 \<le> (of_char ch :: nat) \<and> (of_char ch :: nat) \<le> 57) \<or>
               (97 \<le> (of_char ch :: nat) \<and> (of_char ch :: nat) \<le> 102)"
    using set_EncodeToString hex_digit_codes by blast
  with t generated(5) [OF assms] show ?thesis
    unfolding codeAt_def hexCode_def by blast
qed

theorem generated_code_alphabet_witness:
  "generateShortCode (db world0) ''https://a.com'' [1700000000000000000] = Some (Inr ''0NJ4XWYM'')
   \<and> set ''0NJ4XWYM'' \<subseteq> set ''JKLMNOWXYZ012345''"
  using generated_code_alphabet [OF generate_sample0] generate_sample0 by blast

text \<open>
  Claim C3 says that each of the first 8 bytes of the hash is mapped to a symbol by
  \<open>byte mod 62\<close>. On the URL \<^verbatim>\<open>https://a.com\<close> and the clock reading
  \<open>1700000000000000000\<close> the digest starts with the bytes \<open>4e a8 10 2d 31 25 ba ee\<close>,
  which that mapping turns into \<^verbatim>\<open>qSqTXLa0\<close>; the function returns \<^verbatim>\<open>0NJ4XWYM\<close>.
\<close>

theorem generateShortCode_digest_counterexample:
  "generateShortCode (db world0) ''https://a.com'' [1700000000000000000] = Some (Inr ''0NJ4XWYM'')
   \<and> digestCode (md5_Sum (bytes_of (''https://a.com'' @ Sprintf_d (sint (1700000000000000000 :: int64)))))
       = ''qSqTXLa0''"
  using generate_sample0 digestCode_sample0 by simp

text \<open>
  Claim C3, amended. For every URL, \<^verbatim>\<open>generateShortCode\<close> hashes the URL followed by the
  decimal clock reading, maps each of the first 8 characters of the lower-case hexadecimal
  text of the digest to the alphabet symbol at its character code modulo 62, and tries the
  next clock reading while the code is a key of the \<^verbatim>\<open>urls\<close> bucket: it returns the code
  of the first reading whose code is not in the store, it has not returned when there is
  no such reading, and it returns the error of the store when no transaction can begin.
  Every code it returns has exactly 8 characters of the 62-symbol alphabet.
\<close>

theorem generateShortCode_hex:
  "generateShortCode d url ts =
     (if ts = [] then None
      else if \<not> opened d then Some (Inl ErrDatabaseNotOpen)
      else map_option (\<lambda>t. Inr (hexCode (md5_Sum (bytes_of (url @ Sprintf_d (sint t))))))
             (find (\<lambda>t. urlsGet d (hexCode (md5_Sum (bytes_of (url @ Sprintf_d (sint t))))) = None) ts))
   \<and> (\<forall>c. generateShortCode d url ts = Some (Inr c) \<longrightarrow>
          length c = 8 \<and> set c \<subseteq> set base62Chars)"
proof -
  have "length c = 8 \<and> set c \<subseteq> set base62Chars"
    if "generateShortCode d url ts = Some (Inr c)" for c
    using generated(4,5) [OF that] sym16_sym62 by blast
  then show ?thesis
    using generateShortCode_find [of d url ts] unfolding codeAt_def by simp
qed

theorem generateShortCode_hex_witness:
  "generateShortCode (db world1) ''https://a.com'' [1700000000000000000, 1700000000000000001]
     = Some (Inr ''OOKK5W2N'')
   \<and> urlsGet (db world1) ''0NJ4XWYM'' \<noteq> None
   \<and> length ''OOKK5W2N'' = 8 \<and> set ''OOKK5W2N'' \<subseteq> set base62Chars"
proof -
  have "urlsGet (db world1) ''0NJ4XWYM'' \<noteq> None"
    by (simp add: world1_def urlsGet_def)
  with generateShortCode_hex [of "db world1" "''https://a.com''"
      "[1700000000000000000, 1700000000000000001]"] generate_sample1
  show ?thesis by simp
qed

section \<open>Resolving a stored code\<close>


lemma shortened_record:
  assumes cw: "consistent w" and s: "shortenHandler P env w verb body = Some (w', JsonOK r)"
  shows "\<exists>q. verb = ''POST'' \<and> body = Some q \<and> isValidURL P (normalizeURL q) \<and>
             original_url r = normalizeURL q"
    and "short_code r \<noteq> []"
    and "short_url r = ''http://localhost:8080/'' @ short_code r"
    and "reverseGet (db w') (original_url r) = Some (short_code r)"
    and "\<exists>x. urlsGet (db w') (short_code r) = Some (Marshalled x) \<and> OriginalURL x = original_url r"
proof -
  have "(\<exists>q. verb = ''POST'' \<and> body = Some q \<and> isValidURL P (normalizeURL q) \<and>
             original_url r = normalizeURL q) \<and> short_code r \<noteq> [] \<and>
        short_url r = ''http://localhost:8080/'' @ short_code r \<and>
        reverseGet (db w') (original_url r) = Some (short_code r) \<and>
        (\<exists>x. urlsGet (db w') (short_code r) = Some (Marshalled x) \<and> OriginalURL x = original_url r)"
    using s
  proof (cases rule: shortenHandler_cases)
    case unchanged
    then show ?thesis by simp
  next
    case (failed l)
    then show ?thesis by simp
  next
    case (existing q c)
    from cw existing(5) have "\<exists>x. urlsGet (db w) c = Some (Marshalled x) \<and> OriginalURL x = normalizeURL q"
      unfolding consistent_def by blast
    with existing show ?thesis by simp
  next
    case (created q c d)
    note g = generated [OF created(5)]
    note sv = saved [OF created(6)]
    from g(4) have "c \<noteq> []" by auto
    with created sv show ?thesis by simp
  qed
  then show "\<exists>q. verb = ''POST'' \<and> body = Some q \<and> isValidURL P (normalizeURL q) \<and>
             original_url r = normalizeURL q"
    and "short_code r \<noteq> []"
    and "short_url r = ''http://localhost:8080/'' @ short_code r"
    and "reverseGet (db w') (original_url r) = Some (short_code r)"
    and "\<exists>x. urlsGet (db w') (short_code r) = Some (Marshalled x) \<and> OriginalURL x = original_url r"
    by blast+
qed

lemma db_expireCache [simp]: "db (expireCache ks w) = db w"
  by (simp add: expireCache_def)

section \<open>The claims about shortening and resolving\<close>



text \<open>
  Claim C2. When a call of \<^verbatim>\<open>shortenHandler\<close> has answered with a short code, a second call
  with the same input, whatever its clock readings and faults, gives the same answer and
  leaves the state as it is: it creates nothing. The store then holds exactly one record
  whose \<^verbatim>\<open>original_url\<close> is that URL, the one under the returned code.
\<close>
theorem shorten_idempotent:
  assumes "reachable P w" and "shortenHandler P env w verb body = Some (w1, JsonOK r1)"
  shows "shortenHandler P env' w1 verb body = Some (w1, JsonOK r1) \<and>
         {c. \<exists>x. urlsGet (db w1) c = Some (Marshalled x) \<and> OriginalURL x = original_url r1}
           = {short_code r1}"
proof -
  from assms(1) have cw: "consistent w" by (rule reachable_consistent)
  then have cw1: "consistent w1" using assms(2) by (rule consistent_shorten)
  note sr = shortened_record [OF cw assms(2)]
  from sr(1) obtain q where q: "verb = ''POST''" "body = Some q" "isValidURL P (normalizeURL q)"
    "original_url r1 = normalizeURL q" by blast
  from cw1 have o: "opened (db w1)" by (simp add: consistent_def)
  have fe: "findExisting (normalizeURL q) (buckets (db w1)) = short_code r1"
    using sr(4) q(4) by (simp add: findExisting_reverseGet)
  have "shortenHandler P env' w1 ''POST'' (Some q) = Some (w1, JsonOK r1)"
    unfolding shortenHandler_valid [OF q(3)] using o fe sr(2,3) q(4) by simp
  moreover have "{c. \<exists>x. urlsGet (db w1) c = Some (Marshalled x) \<and> OriginalURL x = original_url r1}
           = {short_code r1}"
  proof (intro equalityI subsetI)
    fix c assume "c \<in> {c. \<exists>x. urlsGet (db w1) c = Some (Marshalled x) \<and> OriginalURL x = original_url r1}"
    then obtain x where x: "urlsGet (db w1) c = Some (Marshalled x)" "OriginalURL x = original_url r1"
      by blast
    from cw1 x(1) have "reverseGet (db w1) (OriginalURL x) = Some c"
      unfolding consistent_def by fastforce
    with x(2) sr(4) show "c \<in> {short_code r1}" by simp
  next
    fix c assume "c \<in> {short_code r1}"
    with sr(5) show "c \<in> {c. \<exists>x. urlsGet (db w1) c = Some (Marshalled x) \<and> OriginalURL x = original_url r1}"
      by simp
  qed
  ultimately show ?thesis using q by simp
qed

theorem shorten_idempotent_witness:
  "reachable parseOnExamples world0 \<and>
   shortenHandler parseOnExamples env0 world0 ''POST'' (Some ''a.com'') = Some (world1, JsonOK response0) \<and>
   shortenHandler parseOnExamples env1 world1 ''POST'' (Some ''a.com'') = Some (world1, JsonOK response0) \<and>
   {c. \<exists>x. urlsGet (db world1) c = Some (Marshalled x) \<and> OriginalURL x = ''https://a.com''}
     = {''0NJ4XWYM''}"
  using shorten_idempotent [OF reachable_world0 shorten_sample, of env1]
    reachable_world0 shorten_sample
  by (simp add: response0_def)

section \<open>The store when requests overlap\<close>

lemma generateShortCode_attempt:
  "generateShortCode d url (t # ts) =
     (case generateAttempt d url t of None \<Rightarrow> generateShortCode d url ts | Some r \<Rightarrow> Some r)"
  by (simp add: generateShortCode.simps(2) generateAttempt_def Let_def split: sum.splits)

lemma shortenHandler_phases:
  "shortenHandler P env w verb body =
     (case shortenBegin P w verb body of
        Inl a \<Rightarrow> Some a
      | Inr url \<Rightarrow>
          (case generateShortCode (db w) url (clock env) of
             None \<Rightarrow> None
           | Some (Inl e) \<Rightarrow>
               Some (w\<lparr>logged := logged w @ [LogGenerateError e]\<rparr>, JsonError 500 ''server error'')
           | Some (Inr shortCode) \<Rightarrow> Some (shortenWrite env w url shortCode)))"
  by (simp add: shortenHandler_def shortenBegin_def shortenWrite_def Let_def
      split: option.splits sum.splits prod.splits)

lemma generateAttempt_Inr:
  assumes "generateAttempt d url t = Some (Inr c)"
  shows "generateShortCode d url [t] = Some (Inr c)"
  using assms by (simp add: generateShortCode_attempt)

lemma interleaved_generate:
  assumes "interleaved P w (pre @ Generating url # post)"
    and "generateShortCode (db w) url ts = Some r"
  shows "case r of
           Inl e \<Rightarrow> interleaved P (w\<lparr>logged := logged w @ [LogGenerateError e]\<rparr>) (pre @ post)
         | Inr c \<Rightarrow> interleaved P w (pre @ Writing url c # post)"
  using assms(2)
proof (induction ts)
  case Nil
  then show ?case by simp
next
  case (Cons t ts)
  show ?case
  proof (cases "generateAttempt (db w) url t")
    case None
    with Cons show ?thesis by (simp add: generateShortCode_attempt)
  next
    case (Some a)
    with Cons.prems have a: "a = r" by (simp add: generateShortCode_attempt)
    show ?thesis
    proof (cases r)
      case (Inl e)
      with Some a interleaved.generate_failed [OF assms(1), of t e] show ?thesis by simp
    next
      case (Inr c)
      with Some a interleaved.generated [OF assms(1), of t c] show ?thesis by simp
    qed
  qed
qed

lemma reachable_interleaved: "reachable P w \<Longrightarrow> interleaved P w []"
proof (induction rule: reachable.induct)
  case (start fs w)
  then show ?case by (rule interleaved.start)
next
  case (restart w fs w')
  then show ?case by (auto intro: interleaved.restart)
next
  case (shorten w env verb body w' resp)
  note ph = shorten.hyps(2) [unfolded shortenHandler_phases]
  show ?case
  proof (cases "shortenBegin P w verb body")
    case (Inl a)
    with ph have "shortenBegin P w verb body = Inl (w', resp)" by simp
    from interleaved.answered [OF shorten.IH this] show ?thesis .
  next
    case (Inr url)
    from interleaved.accepted [of P w "[]" "[]", OF _ Inr] shorten.IH
    have g: "interleaved P w ([] @ Generating url # [])" by simp
    from ph Inr obtain r where r: "generateShortCode (db w) url (clock env) = Some r"
      by (cases "generateShortCode (db w) url (clock env)") auto
    note st = interleaved_generate [OF g r]
    show ?thesis
    proof (cases r)
      case (Inl e)
      with ph Inr r st show ?thesis by simp
    next
      case c: (Inr c)
      with st have "interleaved P w ([] @ Writing url c # [])" by simp
      moreover from ph Inr r c have "shortenWrite env w url c = (w', resp)" by simp
      ultimately have "interleaved P w' ([] @ [])" by (rule interleaved.written)
      then show ?thesis by simp
    qed
  qed
next
  case (redirect w shortCode w' resp)
  then show ?case by (auto intro: interleaved.redirect)
next
  case (goroutine w fs i)
  then show ?case by (auto intro: interleaved.goroutine)
next
  case (expire w ks)
  then show ?case by (auto intro: interleaved.expire)
qed

lemma paired_saved:
  assumes "paired d" and "Update fs d (saveURL fs u c now) = (d', r)"
  shows "paired d'"
proof (cases r)
  case (Some e)
  with assms(2) have "d' = d" by (auto dest: Update_failed)
  with assms(1) show ?thesis by simp
next
  case None
  note s = saved [OF assms(2) [unfolded None]]
  from assms(1) have p1: "\<And>k v. urlsGet d k = Some v \<Longrightarrow>
        \<exists>x. v = Marshalled x \<and> ShortCode x = k \<and> reverseGet d (OriginalURL x) \<noteq> None"
    and p2: "\<And>x k. reverseGet d x = Some k \<Longrightarrow> \<exists>y. urlsGet d k = Some (Marshalled y)"
    unfolding paired_def by blast+
  show ?thesis
    unfolding paired_def
  proof (intro conjI allI impI)
    fix k v assume a: "urlsGet d' k = Some v"
    show "\<exists>x. v = Marshalled x \<and> ShortCode x = k \<and> reverseGet d' (OriginalURL x) \<noteq> None"
    proof (cases "k = c")
      case True
      with a s(4) have "v = Marshalled \<lparr>ID = 0, OriginalURL = u, ShortCode = c,
          CreatedAt = now, ClickCount = 0\<rparr>" by simp
      with True s(5) show ?thesis by simp
    next
      case False
      with a s(4) have "urlsGet d k = Some v" by simp
      from p1 [OF this] s(5) show ?thesis by auto
    qed
  next
    fix x k assume a: "reverseGet d' x = Some k"
    show "\<exists>y. urlsGet d' k = Some (Marshalled y)"
    proof (cases "k = c")
      case True
      with s(4) show ?thesis by simp
    next
      case False
      with a s(5) have "reverseGet d x = Some k" by (auto split: if_splits)
      from p2 [OF this] False s(4) show ?thesis by simp
    qed
  qed
qed

lemma paired_increment:
  assumes "paired d"
  shows "paired (fst (incrementClicks fs d c))"
proof -
  define d' where "d' = fst (incrementClicks fs d c)"
  have e: "fst (incrementClicks fs d c) = d'" by (simp add: d'_def)
  note eff = incrementClicks_effect [OF e]
  from assms have p1: "\<And>k v. urlsGet d k = Some v \<Longrightarrow>
        \<exists>x. v = Marshalled x \<and> ShortCode x = k \<and> reverseGet d (OriginalURL x) \<noteq> None"
    and p2: "\<And>x k. reverseGet d x = Some k \<Longrightarrow> \<exists>y. urlsGet d k = Some (Marshalled y)"
    unfolding paired_def by blast+
  from eff(3) have "paired d'"
  proof
    assume "urlsGet d' = urlsGet d"
    with eff(2) assms show ?thesis by (simp add: paired_def)
  next
    assume "\<exists>r. urlsGet d c = Some (Marshalled r) \<and> opened d \<and>
              urlsGet d' = (urlsGet d)(c \<mapsto> Marshalled (r\<lparr>ClickCount := ClickCount r + 1\<rparr>))"
    then obtain r where r: "urlsGet d c = Some (Marshalled r)"
      and u: "urlsGet d' = (urlsGet d)(c \<mapsto> Marshalled (r\<lparr>ClickCount := ClickCount r + 1\<rparr>))"
      by blast
    from p1 [OF r] have rc: "ShortCode r = c" "reverseGet d (OriginalURL r) \<noteq> None" by auto
    show ?thesis
      unfolding paired_def
    proof (intro conjI allI impI)
      fix k v assume "urlsGet d' k = Some v"
      then show "\<exists>x. v = Marshalled x \<and> ShortCode x = k \<and> reverseGet d' (OriginalURL x) \<noteq> None"
        using p1 [of k v] rc eff(2) u by (cases "k = c") auto
    next
      fix x k assume "reverseGet d' x = Some k"
      then show "\<exists>y. urlsGet d' k = Some (Marshalled y)"
        using p2 [of x k] eff(2) u by (cases "k = c") auto
    qed
  qed
  then show ?thesis by (simp add: d'_def)
qed

lemma paired_setup:
  assumes "startServer fs d = Some w" and "paired d \<or> d = newDB"
  shows "paired (db w)"
proof -
  from assms(1) obtain d' where s: "setupDatabase fs d = (d', None)" and w: "db w = d'"
    by (auto simp: startServer_def split: prod.splits option.splits)
  have "paired newDB" by (simp add: paired_def newDB_def urlsGet_def reverseGet_def)
  with assms(2) have "paired d" by auto
  with setupDatabase_effect [OF s] w show ?thesis by (simp add: paired_def)
qed

lemma interleaved_paired: "interleaved P w fl \<Longrightarrow> paired (db w)"
proof (induction rule: interleaved.induct)
  case (start fs w)
  then show ?case by (auto intro: paired_setup)
next
  case (restart w fl fs w')
  then show ?case by (auto intro: paired_setup)
next
  case (answered w fl verb body w' resp)
  from answered.hyps(2) have "w' = w"
    by (auto simp: shortenBegin_def Let_def split: if_splits option.splits prod.splits)
  with answered.IH show ?case by simp
next
  case (written w pre url shortCode post env w' resp)
  obtain d r where u: "Update (faults env) (db w)
      (saveURL (faults env) url shortCode (createdAt env)) = (d, r)" by fastforce
  from paired_saved [OF written.IH u] have "paired d" .
  moreover from u written.hyps(2) have "db w' = d \<or> db w' = db w"
    by (cases r) (auto simp: shortenWrite_def)
  ultimately show ?case using written.IH by auto
next
  case (redirect w fl shortCode w' resp)
  from redirect.hyps(2) have "db w' = db w"
    by (cases rule: redirectHandler_cases) simp_all
  with redirect.IH show ?case by simp
next
  case (goroutine w fl fs i)
  then show ?case by (auto simp: runGoroutine_def intro: paired_increment)
qed (simp_all add: expireCache_def)

lemma generateAttempt_codeAt:
  "generateAttempt d url t =
     (if \<not> opened d then Some (Inl ErrDatabaseNotOpen)
      else if urlsGet d (codeAt url t) \<noteq> None then None
      else Some (Inr (codeAt url t)))"
  by (simp add: generateAttempt_def Let_def View_def codeExists_def urlsGet_def codeAt_def
      encode_hexCode split: option.splits)

lemma begin_sample0: "shortenBegin parseOnExamples world0 ''POST'' (Some ''a.com'') = Inr ''https://a.com''"
  using valid_sample
  by (simp add: shortenBegin_def normalize_sample Let_def View_def findExisting_def world0_def)

lemma write_sample0: "shortenWrite env0 world0 ''https://a.com'' ''0NJ4XWYM'' = (world1, JsonOK response0)"
  by (simp add: shortenWrite_def env0_def world0_def world1_def response0_def record0_def
      Update_def saveURL_def Let_def bucketOrNew_def)

lemma write_sample1:
  "fst (shortenWrite env2 world1 ''https://a.com'' ''OOKK5W2N'') = world2"
  by (simp add: shortenWrite_def env2_def world1_def world2_def record1_def
      Update_def saveURL_def Let_def bucketOrNew_def)

lemma interleaved_world2: "interleaved parseOnExamples world2 []"
proof -
  let ?u = "''https://a.com''"
  have "interleaved parseOnExamples world0 []"
    using start_world0 by (rule interleaved.start)
  then have "interleaved parseOnExamples world0 ([] @ [])" by simp
  then have "interleaved parseOnExamples world0 ([] @ Generating ?u # [])"
    using begin_sample0 by (rule interleaved.accepted)
  then have "interleaved parseOnExamples world0 ([Generating ?u] @ [])" by simp
  then have "interleaved parseOnExamples world0 ([Generating ?u] @ Generating ?u # [])"
    using begin_sample0 by (rule interleaved.accepted)
  then have "interleaved parseOnExamples world0 ([] @ Generating ?u # [Generating ?u])" by simp
  moreover have "generateAttempt (db world0) ?u 1700000000000000000 = Some (Inr ''0NJ4XWYM'')"
    by (simp add: generateAttempt_codeAt codeAt_sample0 world0_def urlsGet_def)
  ultimately have "interleaved parseOnExamples world0 ([] @ Writing ?u ''0NJ4XWYM'' # [Generating ?u])"
    by (rule interleaved.generated)
  then have "interleaved parseOnExamples world0 ([Writing ?u ''0NJ4XWYM''] @ Generating ?u # [])"
    by simp
  moreover have "generateAttempt (db world0) ?u 1700000000000000001 = Some (Inr ''OOKK5W2N'')"
    by (simp add: generateAttempt_codeAt codeAt_sample1 world0_def urlsGet_def)
  ultimately have "interleaved parseOnExamples world0
      ([Writing ?u ''0NJ4XWYM''] @ Writing ?u ''OOKK5W2N'' # [])"
    by (rule interleaved.generated)
  then have "interleaved parseOnExamples world0
      ([] @ Writing ?u ''0NJ4XWYM'' # [Writing ?u ''OOKK5W2N''])" by simp
  then have "interleaved parseOnExamples world1 ([] @ [Writing ?u ''OOKK5W2N''])"
    using write_sample0 by (rule interleaved.written)
  then have "interleaved parseOnExamples world1 ([] @ Writing ?u ''OOKK5W2N'' # [])" by simp
  moreover have "shortenWrite env2 world1 ?u ''OOKK5W2N''
      = (world2, snd (shortenWrite env2 world1 ?u ''OOKK5W2N''))"
    using write_sample1 by (simp add: prod_eq_iff)
  ultimately have "interleaved parseOnExamples world2 ([] @ [])"
    by (rule interleaved.written)
  then show ?thesis by simp
qed

text \<open>
  Claim C5 says that in every store state a record under a code has its \<^verbatim>\<open>original_url\<close>
  mapped to the same code by the reverse index. Two requests for \<^verbatim>\<open>a.com\<close> overlap on a
  new store: both read the empty reverse index, both generate a code, with the clock
  readings \<open>1700000000000000000\<close> and \<open>1700000000000000001\<close>, and both write. The record of
  the first is still under \<^verbatim>\<open>0NJ4XWYM\<close>, and the reverse index maps its URL to the code of
  the second, \<^verbatim>\<open>OOKK5W2N\<close>.
\<close>
theorem overlapping_shorten_counterexample:
  "interleaved parseOnExamples world2 [] \<and>
   urlsGet (db world2) ''0NJ4XWYM'' = Some (Marshalled record0) \<and>
   OriginalURL record0 = ''https://a.com'' \<and>
   reverseGet (db world2) ''https://a.com'' = Some ''OOKK5W2N''"
  using interleaved_world2
  by (simp add: world2_def record0_def urlsGet_def reverseGet_def)

text \<open>
  Claim C5, amended. In every store state that the service reaches, however the
  transactions of overlapping requests alternate and whichever write transactions fail, a
  record stored under a code carries that code and its \<^verbatim>\<open>original_url\<close> has an entry in the
  reverse index, every entry of the reverse index names a code that has a record, and no
  value of \<^verbatim>\<open>urls\<close> fails to decode: neither entry exists without a counterpart, because
  both are written in one transaction. When the requests are served one after the other,
  which is a special case of the above, the reverse index maps the \<^verbatim>\<open>original_url\<close> of a
  record to the code of that same record, and the record under the code of a reverse entry
  has the URL of the entry.
\<close>
theorem store_entries_have_counterparts:
  "(interleaved P w fl \<longrightarrow>
      (\<forall>c x. urlsGet (db w) c = Some (Marshalled x) \<longrightarrow>
         ShortCode x = c \<and> reverseGet (db w) (OriginalURL x) \<noteq> None) \<and>
      (\<forall>u c. reverseGet (db w) u = Some c \<longrightarrow> (\<exists>x. urlsGet (db w) c = Some (Marshalled x))) \<and>
      (\<forall>c. urlsGet (db w) c \<noteq> Some Malformed)) \<and>
   (reachable P w' \<longrightarrow>
      interleaved P w' [] \<and>
      (\<forall>c x. urlsGet (db w') c = Some (Marshalled x) \<longrightarrow>
         reverseGet (db w') (OriginalURL x) = Some c) \<and>
      (\<forall>u c. reverseGet (db w') u = Some c \<longrightarrow>
         (\<exists>x. urlsGet (db w') c = Some (Marshalled x) \<and> OriginalURL x = u)))"
proof (intro conjI impI)
  assume "interleaved P w fl"
  then have p: "paired (db w)" by (rule interleaved_paired)
  then show "\<forall>c x. urlsGet (db w) c = Some (Marshalled x) \<longrightarrow>
         ShortCode x = c \<and> reverseGet (db w) (OriginalURL x) \<noteq> None"
    unfolding paired_def by fastforce
  from p show "\<forall>u c. reverseGet (db w) u = Some c \<longrightarrow> (\<exists>x. urlsGet (db w) c = Some (Marshalled x))"
    unfolding paired_def by blast
  from p show "\<forall>c. urlsGet (db w) c \<noteq> Some Malformed"
    unfolding paired_def by fastforce
next
  assume r: "reachable P w'"
  then show "interleaved P w' []" by (rule reachable_interleaved)
  from r have cw: "consistent w'" by (rule reachable_consistent)
  then show "\<forall>c x. urlsGet (db w') c = Some (Marshalled x) \<longrightarrow>
         reverseGet (db w') (OriginalURL x) = Some c"
    unfolding consistent_def by fastforce
  from cw show "\<forall>u c. reverseGet (db w') u = Some c \<longrightarrow>
         (\<exists>x. urlsGet (db w') c = Some (Marshalled x) \<and> OriginalURL x = u)"
    unfolding consistent_def by blast
qed

theorem store_entries_have_counterparts_witness:
  "interleaved parseOnExamples world2 [] \<and>
   urlsGet (db world2) ''0NJ4XWYM'' = Some (Marshalled record0) \<and>
   ShortCode record0 = ''0NJ4XWYM'' \<and>
   reverseGet (db world2) (OriginalURL record0) \<noteq> None \<and>
   reachable parseOnExamples world1 \<and>
   urlsGet (db world1) ''0NJ4XWYM'' = Some (Marshalled record0) \<and>
   reverseGet (db world1) (OriginalURL record0) = Some ''0NJ4XWYM''"
proof -
  have u2: "urlsGet (db world2) ''0NJ4XWYM'' = Some (Marshalled record0)"
    by (simp add: world2_def urlsGet_def)
  have u1: "urlsGet (db world1) ''0NJ4XWYM'' = Some (Marshalled record0)"
    by (simp add: world1_def urlsGet_def)
  from store_entries_have_counterparts [of parseOnExamples world2 "[]" world1]
    interleaved_world2 reachable_world1 u1 u2
  show ?thesis by blast
qed

section \<open>The click counter\<close>

lemma resolveAndSettle_step:
  assumes o: "opened (db w)" and g: "goroutines w = []" and c: "c \<noteq> []"
    and r: "urlsGet (db w) c = Some (Marshalled r)" and u: "OriginalURL r \<noteq> []"
  shows "opened (db (resolveAndSettle c ks w))"
    and "goroutines (resolveAndSettle c ks w) = []"
    and "urlsGet (db (resolveAndSettle c ks w)) c
           = Some (Marshalled (r\<lparr>ClickCount := ClickCount r + 1\<rparr>))"
proof -
  define w1 where "w1 = fst (redirectHandler (expireCache ks w) c)"
  have w1: "db w1 = db w \<and> goroutines w1 = [c]"
  proof (cases "cache (expireCache ks w) c")
    case None
    with o r c u g show ?thesis
      by (simp add: w1_def redirectHandler_def View_def lookupOriginal_urlsGet expireCache_def)
  next
    case (Some x)
    with c g show ?thesis
      by (simp add: w1_def redirectHandler_def expireCache_def)
  qed
  have rs: "resolveAndSettle c ks w = w1\<lparr>db := fst (incrementClicks [] (db w) c), goroutines := []\<rparr>"
    using w1 by (simp add: resolveAndSettle_def runGoroutine_def w1_def [symmetric])
  from incrementClicks_effect(1) [OF refl, of "[]" "db w" c] o rs
  show "opened (db (resolveAndSettle c ks w))" by simp
  from rs show "goroutines (resolveAndSettle c ks w) = []" by simp
  from incrementClicks_ok [OF o r] rs
  show "urlsGet (db (resolveAndSettle c ks w)) c
           = Some (Marshalled (r\<lparr>ClickCount := ClickCount r + 1\<rparr>))" by simp
qed

lemma resolves_count:
  assumes "opened (db w)" and "goroutines w = []" and "c \<noteq> []"
    and "urlsGet (db w) c = Some (Marshalled r)" and "OriginalURL r \<noteq> []"
  shows "urlsGet (db (resolves c kss w)) c
           = Some (Marshalled (r\<lparr>ClickCount := ClickCount r + word_of_nat (length kss)\<rparr>))"
  using assms
proof (induction kss arbitrary: w r)
  case Nil
  then show ?case by simp
next
  case (Cons ks kss)
  note st = resolveAndSettle_step [OF Cons.prems, of ks]
  from Cons.IH [OF st(1) st(2) Cons.prems(3) st(3)] Cons.prems(5)
  show ?case by (simp add: add.assoc add.commute)
qed

lemma sint_count: "n < 2 ^ 63 \<Longrightarrow> sint (word_of_nat n :: int64) = int n"
proof -
  assume n: "n < 2 ^ 63"
  then have "int n < int (2 ^ 63)" by (simp only: of_nat_less_iff)
  then have lt: "int n < 2 ^ 63" by (simp only: of_nat_power of_nat_numeral)
  have "- (2 ^ 63) \<le> (0::int)" by (simp only: neg_le_0_iff_le zero_le_power_eq_numeral) simp
  then have ge: "- (2 ^ 63) \<le> int n" by linarith
  have "signed_take_bit 63 (int n) = int n"
    using ge lt by (rule signed_take_bit_int_eq_self)
  then show ?thesis by (simp add: signed_of_nat)
qed

text \<open>
  Claim C6. From a state whose store holds under the code \<open>c\<close> a record with click count 0
  and where no goroutine is waiting, after \<open>N\<close> resolves of \<open>c\<close>, each followed by the run of
  its goroutine without a fault, the record under \<open>c\<close> has click count \<open>N\<close> and is otherwise
  the record it was. Before each resolve any cache entries may expire, so each one is
  served from the cache or from the store. The counter is a 64-bit integer: \<open>N\<close> is below
  \<open>2 ^ 63\<close>.
\<close>
theorem click_count_after_resolves:
  assumes "opened (db w)" and "goroutines w = []" and "c \<noteq> []"
    and "urlsGet (db w) c = Some (Marshalled r)" and "ClickCount r = 0"
    and "OriginalURL r \<noteq> []" and "length kss < 2 ^ 63"
  shows "\<exists>r'. urlsGet (db (resolves c kss w)) c = Some (Marshalled r') \<and>
              sint (ClickCount r') = int (length kss) \<and>
              r' = r\<lparr>ClickCount := ClickCount r'\<rparr>"
proof -
  from resolves_count [OF assms(1-4) assms(6), of kss] assms(5)
  have "urlsGet (db (resolves c kss w)) c
          = Some (Marshalled (r\<lparr>ClickCount := word_of_nat (length kss)\<rparr>))"
    by simp
  with sint_count [OF assms(7)] show ?thesis by simp
qed

theorem click_count_after_resolves_witness:
  "opened (db world1) \<and> goroutines world1 = [] \<and> ''0NJ4XWYM'' \<noteq> [] \<and>
   urlsGet (db world1) ''0NJ4XWYM'' = Some (Marshalled record0) \<and> ClickCount record0 = 0 \<and>
   OriginalURL record0 \<noteq> [] \<and> length [[], [''0NJ4XWYM''], []] < (2::nat) ^ 63 \<and>
   urlsGet (db (resolves ''0NJ4XWYM'' [[], [''0NJ4XWYM''], []] world1)) ''0NJ4XWYM''
     = Some (Marshalled (record0\<lparr>ClickCount := 3\<rparr>))"
proof -
  have h: "opened (db world1)" "goroutines world1 = []" "''0NJ4XWYM'' \<noteq> []"
    "urlsGet (db world1) ''0NJ4XWYM'' = Some (Marshalled record0)" "ClickCount record0 = 0"
    "OriginalURL record0 \<noteq> []"
    by (simp_all add: world1_def record0_def urlsGet_def)
  have l: "length [[], [''0NJ4XWYM''], []] < (2::nat) ^ 63" by simp
  from click_count_after_resolves [OF h l] obtain r' where
    r': "urlsGet (db (resolves ''0NJ4XWYM'' [[], [''0NJ4XWYM''], []] world1)) ''0NJ4XWYM''
           = Some (Marshalled r')"
      "sint (ClickCount r') = int (length [[], [''0NJ4XWYM''], [] :: string list])"
      "r' = record0\<lparr>ClickCount := ClickCount r'\<rparr>"
    by blast
  from r'(2) have "sint (ClickCount r') = sint (3 :: int64)" by simp
  then have "ClickCount r' = 3" by (rule signed_word_eqI)
  with r'(3) have "r' = record0\<lparr>ClickCount := 3\<rparr>" by simp
  with r'(1) h l show ?thesis by simp
qed

section \<open>Validation and failures of \<^verbatim>\<open>shortenHandler\<close>\<close>

text \<open>
  Claim C7. An input without the prefix \<^verbatim>\<open>http://\<close> or \<^verbatim>\<open>https://\<close> gets \<^verbatim>\<open>https://\<close>
  in front, an input with one of them is left as it is, and the result is what is validated:
  when \<^verbatim>\<open>url.Parse\<close> gives for it a URL with a scheme and a host, the answer is not the
  error \<^verbatim>\<open>invalid url format\<close>; otherwise the answer is that error with status 400 and
  the state, store and cache included, is untouched.
\<close>
theorem shorten_validates_normalized_url:
  "(\<not> HasPrefix q ''http://'' \<and> \<not> HasPrefix q ''https://'' \<longrightarrow> normalizeURL q = ''https://'' @ q) \<and>
   (HasPrefix q ''http://'' \<or> HasPrefix q ''https://'' \<longrightarrow> normalizeURL q = q) \<and>
   (if \<exists>u. P (normalizeURL q) = Inr u \<and> Scheme u \<noteq> [] \<and> Host u \<noteq> []
    then \<forall>w'. shortenHandler P env w ''POST'' (Some q)
                 \<noteq> Some (w', JsonError 400 ''invalid url format'')
    else shortenHandler P env w ''POST'' (Some q) = Some (w, JsonError 400 ''invalid url format''))"
proof -
  have v: "isValidURL P (normalizeURL q)
        \<longleftrightarrow> (\<exists>u. P (normalizeURL q) = Inr u \<and> Scheme u \<noteq> [] \<and> Host u \<noteq> [])"
    by (auto simp: isValidURL_def split: sum.splits)
  have "shortenHandler P env w ''POST'' (Some q) \<noteq> Some (w', JsonError 400 ''invalid url format'')"
    if "isValidURL P (normalizeURL q)" for w'
    unfolding shortenHandler_valid [OF that]
    by (auto split: option.splits sum.splits prod.splits)
  moreover have "shortenHandler P env w ''POST'' (Some q) = Some (w, JsonError 400 ''invalid url format'')"
    if "\<not> isValidURL P (normalizeURL q)"
    using that by (simp add: shortenHandler_def)
  ultimately show ?thesis
    unfolding v [symmetric] by (simp add: normalizeURL_def)
qed

theorem shorten_validates_normalized_url_witness:
  "\<not> HasPrefix [] ''http://'' \<and> \<not> HasPrefix [] ''https://'' \<and> normalizeURL [] = ''https://'' \<and>
   parseOnExamples ''https://'' = Inr \<lparr>Scheme = ''https'', Host = []\<rparr> \<and>
   shortenHandler parseOnExamples env0 world1 ''POST'' (Some [])
     = Some (world1, JsonError 400 ''invalid url format'') \<and>
   HasPrefix ''https://a.com'' ''https://'' \<and> normalizeURL ''https://a.com'' = ''https://a.com'' \<and>
   shortenHandler parseOnExamples env0 world1 ''POST'' (Some ''https://a.com'')
     \<noteq> Some (world1, JsonError 400 ''invalid url format'')"
proof -
  have a: "\<not> HasPrefix [] ''http://''" "\<not> HasPrefix [] ''https://''"
    "HasPrefix ''https://a.com'' ''https://''"
    by (simp_all add: HasPrefix_def)
  with shorten_validates_normalized_url [of "[]" parseOnExamples env0 world1]
  have n1: "normalizeURL [] = ''https://''" by simp
  from a shorten_validates_normalized_url [of "''https://a.com''" parseOnExamples env0 world1]
  have n2: "normalizeURL ''https://a.com'' = ''https://a.com''" by simp
  have p1: "parseOnExamples ''https://'' = Inr \<lparr>Scheme = ''https'', Host = []\<rparr>"
    and p2: "parseOnExamples ''https://a.com'' = Inr \<lparr>Scheme = ''https'', Host = ''a.com''\<rparr>"
    by (simp_all add: parseOnExamples_def)
  from shorten_validates_normalized_url [of "[]" parseOnExamples env0 world1]
  have s1: "shortenHandler parseOnExamples env0 world1 ''POST'' (Some [])
     = Some (world1, JsonError 400 ''invalid url format'')"
    unfolding n1 p1 by simp
  from shorten_validates_normalized_url [of "''https://a.com''" parseOnExamples env0 world1]
  have s2: "shortenHandler parseOnExamples env0 world1 ''POST'' (Some ''https://a.com'')
     \<noteq> Some (world1, JsonError 400 ''invalid url format'')"
    unfolding n2 p2 by simp
  from a n1 n2 p1 s1 s2 show ?thesis by simp
qed




section \<open>The goroutine that increments the click count\<close>

lemma redirect_sample:
  "redirectHandler world1 ''0NJ4XWYM''
     = (world1\<lparr>goroutines := [''0NJ4XWYM'']\<rparr>, Redirect 301 ''https://a.com'')"
  by (simp add: redirectHandler_def world1_def)

lemma incrementClicks_failure:
  assumes "\<not> opened d \<or> FailMarshal \<in> set fs \<or> FailPutRecord \<in> set fs \<or> FailCommit \<in> set fs
           \<or> urlsGet d c = Some Malformed \<or> urlsGet d c = None"
  shows "fst (incrementClicks fs d c) = d"
  using assms
  by (auto simp: incrementClicks_def Update_def bumpClicks_def urlsGet_def Let_def
      split: option.splits blob.splits sum.splits)

text \<open>
  Claim C9 says that every error inside the goroutine is logged. After \<^verbatim>\<open>a.com\<close> has been
  shortened and its code resolved, the commit of the goroutine's transaction fails:
  \<^verbatim>\<open>db.Update\<close> returns the error, and the log is as empty as before.
\<close>
theorem increment_error_logged_counterexample:
  "redirectHandler world1 ''0NJ4XWYM''
     = (world1\<lparr>goroutines := [''0NJ4XWYM'']\<rparr>, Redirect 301 ''https://a.com'') \<and>
   incrementClicks [FailCommit] (db world1) ''0NJ4XWYM'' = (db world1, Some ErrCommit) \<and>
   logged (runGoroutine [FailCommit] 0 (world1\<lparr>goroutines := [''0NJ4XWYM'']\<rparr>)) = []"
  using redirect_sample
  by (simp add: runGoroutine_def)
    (simp add: world1_def incrementClicks_def Update_def bumpClicks_def Let_def)

text \<open>
  Claim C9, amended. An error inside the goroutine (no transaction, a value that does not
  decode, a record that cannot be marshalled, a failed \<^verbatim>\<open>Put\<close>, a failed commit) is
  dropped without a log line: the run of a goroutine never changes the log or the cache, the
  goroutine is gone afterwards whether or not it failed, so nothing is tried again, and on
  every one of these errors the store is as it was. \<^verbatim>\<open>redirectHandler\<close> has answered before:
  it writes no log line and does not touch the store, and it starts exactly one goroutine
  when it redirects and none when it answers not found.
\<close>
theorem increment_errors_are_dropped:
  "logged (runGoroutine fs i w) = logged w \<and> cache (runGoroutine fs i w) = cache w \<and>
   (i < length (goroutines w) \<longrightarrow>
      goroutines (runGoroutine fs i w) = take i (goroutines w) @ drop (Suc i) (goroutines w) \<and>
      (snd (incrementClicks fs (db w) (goroutines w ! i)) \<noteq> None \<or>
       FailMarshal \<in> set fs \<or> FailPutRecord \<in> set fs \<or>
       urlsGet (db w) (goroutines w ! i) = Some Malformed
         \<longrightarrow> db (runGoroutine fs i w) = db w)) \<and>
   (redirectHandler w c = (w', resp) \<longrightarrow>
      logged w' = logged w \<and> db w' = db w \<and>
      (resp = NotFound \<and> goroutines w' = goroutines w \<or>
       (\<exists>u. resp = Redirect 301 u) \<and> goroutines w' = goroutines w @ [c]))"
proof -
  have "db (runGoroutine fs i w) = db w"
    if "i < length (goroutines w)"
      and "snd (incrementClicks fs (db w) (goroutines w ! i)) \<noteq> None \<or>
           FailMarshal \<in> set fs \<or> FailPutRecord \<in> set fs \<or>
           urlsGet (db w) (goroutines w ! i) = Some Malformed"
  proof -
    from that(2) have "fst (incrementClicks fs (db w) (goroutines w ! i)) = db w"
    proof (elim disjE)
      assume "snd (incrementClicks fs (db w) (goroutines w ! i)) \<noteq> None"
      then obtain d e where "Update fs (db w) (bumpClicks fs (goroutines w ! i)) = (d, Some e)"
        by (cases "Update fs (db w) (bumpClicks fs (goroutines w ! i))")
          (auto simp: incrementClicks_def)
      from Update_failed [OF this] this show ?thesis by (simp add: incrementClicks_def)
    qed (simp_all add: incrementClicks_failure)
    with that(1) show ?thesis by (simp add: runGoroutine_def)
  qed
  moreover have "logged w' = logged w \<and> db w' = db w \<and>
      (resp = NotFound \<and> goroutines w' = goroutines w \<or>
       (\<exists>u. resp = Redirect 301 u) \<and> goroutines w' = goroutines w @ [c])"
    if "redirectHandler w c = (w', resp)"
    using that by (cases rule: redirectHandler_cases) simp_all
  ultimately show ?thesis
    by (simp add: runGoroutine_def)
qed

theorem increment_errors_are_dropped_witness:
  "redirectHandler world1 ''0NJ4XWYM''
     = (world1\<lparr>goroutines := [''0NJ4XWYM'']\<rparr>, Redirect 301 ''https://a.com'') \<and>
   snd (incrementClicks [FailCommit] (db world1) ''0NJ4XWYM'') \<noteq> None \<and>
   runGoroutine [FailCommit] 0 (world1\<lparr>goroutines := [''0NJ4XWYM'']\<rparr>) = world1"
proof -
  let ?w = "world1\<lparr>goroutines := [''0NJ4XWYM'']\<rparr>"
  have e: "snd (incrementClicks [FailCommit] (db world1) ''0NJ4XWYM'') \<noteq> None"
    by (simp add: world1_def incrementClicks_def Update_def bumpClicks_def Let_def)
  from increment_errors_are_dropped [of "[FailCommit]" 0 ?w "''0NJ4XWYM''" ?w NotFound] e
  have "logged (runGoroutine [FailCommit] 0 ?w) = logged ?w"
    "cache (runGoroutine [FailCommit] 0 ?w) = cache ?w"
    "goroutines (runGoroutine [FailCommit] 0 ?w) = []"
    "db (runGoroutine [FailCommit] 0 ?w) = db ?w"
    by simp_all
  then have "runGoroutine [FailCommit] 0 ?w = world1"
    by (intro World.equality) (simp_all add: world1_def)
  with redirect_sample e show ?thesis by simp
qed

section \<open>The origin of the short URL\<close>

text \<open>
  Claim C10 says that the short URL is the configured origin, a slash and the code. With
  \<^verbatim>\<open>PORT=9090\<close> the server listens on \<^verbatim>\<open>:9090\<close> and announces \<^verbatim>\<open>http://localhost:9090\<close>,
  and \<^verbatim>\<open>shortenHandler\<close>, which has no access to the setting, answers the request for
  \<^verbatim>\<open>a.com\<close> with the short URL \<^verbatim>\<open>http://localhost:8080/0NJ4XWYM\<close>.
\<close>
theorem short_url_ignores_configured_port:
  "listenPort ''9090'' = ''9090'' \<and> serverAddr (listenPort ''9090'') = '':9090'' \<and>
   visitURL (listenPort ''9090'') = ''http://localhost:9090'' \<and>
   shortenHandler parseOnExamples env0 world0 ''POST'' (Some ''a.com'')
     = Some (world1, JsonOK \<lparr>short_url = ''http://localhost:8080/0NJ4XWYM'',
                              original_url = ''https://a.com'', short_code = ''0NJ4XWYM''\<rparr>)"
  using shorten_sample
  by (simp add: listenPort_def serverAddr_def visitURL_def response0_def)

end
